theory Spec2Isabelle
  imports Main "HOL-Library.Word"
begin

section \<open>The FilterX scope: variables, lazy message references and sync\<close>

text \<open>
  A shallow embedding of \<^verbatim>\<open>lib/filterx/expr-message-ref.c\<close> and of the scope
  implementation that follows it in the same source file (the variable table, its
  binary search, cloning, copy-on-write and the sync to the log message).

  Pointers are addresses into explicit stores: a \<^verbatim>\<open>FilterXObject *\<close> is an
  \<open>obj_ref option\<close> (\<open>None\<close> is \<^verbatim>\<open>NULL\<close>), a \<^verbatim>\<open>FilterXScope *\<close>
  is a \<open>scope_ref\<close>, and a \<^verbatim>\<open>FilterXVariable *\<close> (a pointer into the array of a
  scope) is the pair of the scope and the index of the slot.  Everything the C code
  can do besides returning is a value of \<open>fault\<close>: \<open>Aborted\<close> for a failed
  \<^verbatim>\<open>g_assert\<close>, \<open>Undefined\<close> for behaviour C leaves undefined (a dangling
  pointer, an index outside the array, signed overflow).
\<close>

subsection \<open>Faults\<close>

datatype fault = Aborted | Undefined

definition bind_r :: "fault + 'a \<Rightarrow> ('a \<Rightarrow> fault + 'b) \<Rightarrow> fault + 'b" where
  "bind_r m f = (case m of Inl e \<Rightarrow> Inl e | Inr x \<Rightarrow> f x)"

subsection \<open>Machine integers\<close>

text \<open>
  \<^verbatim>\<open>guint\<close> is 32 bits wide and wraps; \<^verbatim>\<open>gint\<close> is its two's complement
  reading.  \<open>gint_of_guint\<close> is the conversion the assignment
  \<^verbatim>\<open>h = self->variables->len - 1\<close> performs.
\<close>

definition guint_sub :: "nat \<Rightarrow> nat \<Rightarrow> nat" where
  "guint_sub a b = nat ((int a - int b) mod 2 ^ 32)"

definition gint_of_guint :: "nat \<Rightarrow> int" where
  "gint_of_guint u = (if u < 2 ^ 31 then int u else int u - 2 ^ 32)"

definition gint_max :: int where
  "gint_max = 2 ^ 31 - 1"

definition gint_min :: int where
  "gint_min = - (2 ^ 31)"

subsection \<open>Data\<close>

type_synonym nvhandle = "32 word"
type_synonym obj_ref = nat
type_synonym scope_ref = nat
type_synonym var_ptr = "scope_ref \<times> nat"

text \<open>\<^verbatim>\<open>struct _FilterXVariable\<close>.\<close>

record filterx_variable =
  v_handle :: nvhandle
  v_floating :: bool
  v_assigned :: bool
  v_value :: "obj_ref option"

text \<open>\<^verbatim>\<open>struct _FilterXScope\<close>.\<close>

record filterx_scope =
  ref_cnt :: int
  variables :: "filterx_variable list"
  weak_refs :: "obj_ref list"
  write_protected :: bool


subsection \<open>Values\<close>

text \<open>
  The object layer (\<^verbatim>\<open>filterx/filterx-object.h\<close>) is not part of the sources.
  A \<^verbatim>\<open>FilterXObject\<close> is kept as its reference count, the
  \<^verbatim>\<open>modified_in_place\<close> bit the scope reads and clears, and its contents
  \<open>'p\<close>, which the scope never inspects.  What a value's type provides by dynamic
  dispatch is a parameter of the model, the \<open>value_layer\<close>: whether the variant is
  mutable, the type's own clone method, marshalling (\<open>None\<close> when the C function
  returns \<^verbatim>\<open>FALSE\<close>) and the contents of a value that borrows bytes of the
  message.  \<^verbatim>\<open>LogMessageValueType\<close> is an enum declared outside the sources; its
  values are kept as their integer tags.
\<close>

record 'p filterx_object =
  obj_ref_cnt :: int
  modified_in_place :: bool
  obj_data :: 'p

record 'p value_layer =
  is_mutable :: "'p \<Rightarrow> bool"
  type_clone :: "'p filterx_object \<Rightarrow> 'p filterx_object"
  marshal :: "'p \<Rightarrow> (string \<times> nat) option"
  message_value :: "string \<Rightarrow> nat \<Rightarrow> 'p"

text \<open>
  The store: objects and scopes by address.  Addresses are handed out in increasing
  order and never reused.
\<close>

record 'p state =
  objs :: "obj_ref \<Rightarrow> 'p filterx_object option"
  next_obj :: obj_ref
  scopes :: "scope_ref \<Rightarrow> filterx_scope option"
  next_scope :: scope_ref

definition alloc_object :: "'p state \<Rightarrow> 'p filterx_object \<Rightarrow> 'p state \<times> obj_ref" where
  "alloc_object st ob =
     (st\<lparr>objs := (objs st)(next_obj st \<mapsto> ob), next_obj := next_obj st + 1\<rparr>, next_obj st)"

text \<open>
  Modelled from the spec: \<^verbatim>\<open>filterx_object_ref\<close> is not in the sources.  The spec's
  Value is reference counted with acquire and release; the sources call it on
  \<^verbatim>\<open>NULL\<close> (the initial value of a whiteout), so \<^verbatim>\<open>NULL\<close> is passed through.
\<close>

definition filterx_object_ref :: "'p state \<Rightarrow> obj_ref option \<Rightarrow> fault + ('p state \<times> obj_ref option)" where
  "filterx_object_ref st p =
     (case p of
        None \<Rightarrow> Inr (st, None)
      | Some r \<Rightarrow>
          (case objs st r of
             None \<Rightarrow> Inl Undefined
           | Some ob \<Rightarrow>
               Inr (st\<lparr>objs := (objs st)(r \<mapsto> ob\<lparr>obj_ref_cnt := obj_ref_cnt ob + 1\<rparr>)\<rparr>, Some r)))"

text \<open>
  Modelled from the spec: \<^verbatim>\<open>filterx_object_unref\<close> is not in the sources.  Release
  decrements the count and frees the Value when the count reaches zero.
\<close>

definition filterx_object_unref :: "'p state \<Rightarrow> obj_ref option \<Rightarrow> fault + 'p state" where
  "filterx_object_unref st p =
     (case p of
        None \<Rightarrow> Inr st
      | Some r \<Rightarrow>
          (case objs st r of
             None \<Rightarrow> Inl Undefined
           | Some ob \<Rightarrow>
               if obj_ref_cnt ob - 1 = 0 then Inr (st\<lparr>objs := (objs st)(r := None)\<rparr>)
               else Inr (st\<lparr>objs := (objs st)(r \<mapsto> ob\<lparr>obj_ref_cnt := obj_ref_cnt ob - 1\<rparr>)\<rparr>)))"

text \<open>
  Modelled from the spec: \<^verbatim>\<open>filterx_object_clone\<close> is not in the sources.  The spec
  gives clone as a deep copy for mutable variants and cheap for immutable ones, the result
  independent of the original; the call site in the sources says that it only clones mutable
  objects.  A mutable value is copied by its type's clone method into a new object that
  the caller owns; an immutable value is shared and its count incremented.  The spec
  keeps an absent value absent when a scope is cloned, so \<^verbatim>\<open>NULL\<close> gives
  \<^verbatim>\<open>NULL\<close>.
\<close>

definition filterx_object_clone ::
  "'p value_layer \<Rightarrow> 'p state \<Rightarrow> obj_ref option \<Rightarrow> fault + ('p state \<times> obj_ref option)" where
  "filterx_object_clone V st p =
     (case p of
        None \<Rightarrow> Inr (st, None)
      | Some r \<Rightarrow>
          (case objs st r of
             None \<Rightarrow> Inl Undefined
           | Some ob \<Rightarrow>
               if is_mutable V (obj_data ob) then
                 (let (st1, c) = alloc_object st ((type_clone V ob)\<lparr>obj_ref_cnt := 1\<rparr>)
                  in Inr (st1, Some c))
               else filterx_object_ref st (Some r)))"

text \<open>
  Modelled from the spec: \<^verbatim>\<open>filterx_object_marshal\<close> is not in the sources.  It
  marshals the contents to bytes and a type tag, or fails.
\<close>

definition filterx_object_marshal ::
  "'p value_layer \<Rightarrow> 'p state \<Rightarrow> obj_ref \<Rightarrow> fault + (string \<times> nat) option" where
  "filterx_object_marshal V st r =
     (case objs st r of
        None \<Rightarrow> Inl Undefined
      | Some ob \<Rightarrow> Inr (marshal V (obj_data ob)))"

text \<open>
  Modelled from the spec: \<^verbatim>\<open>filterx_message_value_new_borrowed\<close> is not in the
  sources.  It wraps bytes of the Record as a new Value, owned by the caller.
\<close>

definition filterx_message_value_new_borrowed ::
  "'p value_layer \<Rightarrow> 'p state \<Rightarrow> string \<Rightarrow> nat \<Rightarrow> 'p state \<times> obj_ref" where
  "filterx_message_value_new_borrowed V st bytes t =
     alloc_object st \<lparr>obj_ref_cnt = 1, modified_in_place = False, obj_data = message_value V bytes t\<rparr>"

subsection \<open>The log message\<close>

text \<open>
  Modelled from the spec: \<^verbatim>\<open>LogMessage\<close> and its accessors are not in the sources.
  The Record maps handles to typed byte values and supports get-if-set, is-set,
  set-with-type and unset.  \<open>msg_ops\<close> records the unset and set calls issued on the
  message, in order, so that a call that stores what was already there is still seen.
\<close>

datatype msg_op = Msg_unset nvhandle | Msg_set nvhandle string nat

record log_message =
  nv :: "nvhandle \<Rightarrow> (string \<times> nat) option"
  msg_ops :: "msg_op list"

definition log_msg_get_value_if_set_with_type :: "log_message \<Rightarrow> nvhandle \<Rightarrow> (string \<times> nat) option" where
  "log_msg_get_value_if_set_with_type msg hnd = nv msg hnd"

definition log_msg_is_value_set :: "log_message \<Rightarrow> nvhandle \<Rightarrow> bool" where
  "log_msg_is_value_set msg hnd = (nv msg hnd \<noteq> None)"

definition log_msg_unset_value :: "log_message \<Rightarrow> nvhandle \<Rightarrow> log_message" where
  "log_msg_unset_value msg hnd =
     msg\<lparr>nv := (nv msg)(hnd := None), msg_ops := msg_ops msg @ [Msg_unset hnd]\<rparr>"

definition log_msg_set_value_with_type :: "log_message \<Rightarrow> nvhandle \<Rightarrow> string \<Rightarrow> nat \<Rightarrow> log_message" where
  "log_msg_set_value_with_type msg hnd bytes t =
     msg\<lparr>nv := (nv msg)(hnd \<mapsto> (bytes, t)), msg_ops := msg_ops msg @ [Msg_set hnd bytes t]\<rparr>"

text \<open>
  Modelled from the spec: the evaluation context (\<^verbatim>\<open>filterx_eval_get_context\<close>,
  \<^verbatim>\<open>filterx_eval_get_scope\<close>) is not in the sources.  It exposes the active Scope and
  the active Record, index 0 of its messages.
\<close>

record eval_context =
  ctx_scope :: scope_ref
  ctx_msg :: log_message

subsection \<open>Variables\<close>

text \<open>Reading and writing through a \<^verbatim>\<open>FilterXVariable *\<close>.\<close>

definition read_variable :: "'p state \<Rightarrow> var_ptr \<Rightarrow> fault + filterx_variable" where
  "read_variable st p =
     (case scopes st (fst p) of
        None \<Rightarrow> Inl Undefined
      | Some s \<Rightarrow> if snd p < length (variables s) then Inr (variables s ! snd p) else Inl Undefined)"

definition update_variable ::
  "'p state \<Rightarrow> var_ptr \<Rightarrow> (filterx_variable \<Rightarrow> filterx_variable) \<Rightarrow> fault + 'p state" where
  "update_variable st p f =
     (case scopes st (fst p) of
        None \<Rightarrow> Inl Undefined
      | Some s \<Rightarrow>
          if snd p < length (variables s) then
            Inr (st\<lparr>scopes := (scopes st)(fst p \<mapsto>
                   s\<lparr>variables := (variables s)[snd p := f (variables s ! snd p)]\<rparr>)\<rparr>)
          else Inl Undefined)"

definition filterx_variable_get_value :: "'p state \<Rightarrow> var_ptr \<Rightarrow> fault + ('p state \<times> obj_ref option)" where
  "filterx_variable_get_value st v =
     bind_r (read_variable st v) (\<lambda>var. filterx_object_ref st (v_value var))"

definition filterx_variable_set_value :: "'p state \<Rightarrow> var_ptr \<Rightarrow> obj_ref option \<Rightarrow> fault + 'p state" where
  "filterx_variable_set_value st v new_value =
     bind_r (read_variable st v) (\<lambda>var.
     bind_r (filterx_object_unref st (v_value var)) (\<lambda>st1.
     bind_r (filterx_object_ref st1 new_value) (\<lambda>(st2, r).
     update_variable st2 v (\<lambda>w. w\<lparr>v_value := r, v_assigned := True\<rparr>))))"

definition filterx_variable_unset_value :: "'p state \<Rightarrow> var_ptr \<Rightarrow> fault + 'p state" where
  "filterx_variable_unset_value st v = filterx_variable_set_value st v None"

definition filterx_variable_is_set :: "'p state \<Rightarrow> var_ptr \<Rightarrow> fault + bool" where
  "filterx_variable_is_set st v =
     bind_r (read_variable st v) (\<lambda>var. Inr (v_value var \<noteq> None))"

definition variable_free :: "'p state \<Rightarrow> filterx_variable \<Rightarrow> fault + 'p state" where
  "variable_free st var = filterx_object_unref st (v_value var)"

subsection \<open>The binary search\<close>


text \<open>
  \<^verbatim>\<open>_lookup_variable\<close>: \<open>l\<close>, \<open>h\<close> and \<open>m\<close> are \<^verbatim>\<open>gint\<close>; the sum
  \<open>l + h\<close> outside the range of \<^verbatim>\<open>gint\<close> and a read outside the array are
  undefined.  The result is the flag the C function returns and the index of the slot
  it stores in \<^verbatim>\<open>*v_slot\<close>.
\<close>

function lookup_loop :: "filterx_variable list \<Rightarrow> nvhandle \<Rightarrow> int \<Rightarrow> int \<Rightarrow> fault + (bool \<times> nat)" where
  "lookup_loop vs hnd l h =
     (if l \<le> h then
        (if l + h < gint_min \<or> gint_max < l + h then Inl Undefined
         else
           let m = (l + h) div 2 in
           if m < 0 \<or> int (length vs) \<le> m then Inl Undefined
           else
             let mv = v_handle (vs ! nat m) in
             if mv = hnd then Inr (True, nat m)
             else if mv > hnd then lookup_loop vs hnd l (m - 1)
             else lookup_loop vs hnd (m + 1) h)
      else if l < 0 \<or> int (length vs) < l then Inl Undefined
      else Inr (False, nat l))"
  by pat_completeness auto
termination
  by (relation "measure (\<lambda>(vs, hnd, l, h). nat (h - l + 1))") auto

declare lookup_loop.simps [simp del]

definition lookup_variable :: "filterx_scope \<Rightarrow> nvhandle \<Rightarrow> fault + (bool \<times> nat)" where
  "lookup_variable self hnd =
     lookup_loop (variables self) hnd 0 (gint_of_guint (guint_sub (length (variables self)) 1))"



subsection \<open>Scopes\<close>

definition filterx_scope_lookup_variable :: "'p state \<Rightarrow> scope_ref \<Rightarrow> nvhandle \<Rightarrow> fault + var_ptr option" where
  "filterx_scope_lookup_variable st self hnd =
     (case scopes st self of
        None \<Rightarrow> Inl Undefined
      | Some s \<Rightarrow>
          bind_r (lookup_variable s hnd) (\<lambda>(found, i).
            if found then Inr (Some (self, i)) else Inr None))"

text \<open>\<^verbatim>\<open>g_array_insert_val\<close>.\<close>

definition g_array_insert_val :: "'a list \<Rightarrow> nat \<Rightarrow> 'a \<Rightarrow> 'a list" where
  "g_array_insert_val xs i x = take i xs @ [x] @ drop i xs"

definition filterx_scope_register_variable ::
  "'p state \<Rightarrow> scope_ref \<Rightarrow> nvhandle \<Rightarrow> bool \<Rightarrow> obj_ref option \<Rightarrow> fault + ('p state \<times> var_ptr)" where
  "filterx_scope_register_variable st self hnd floating initial_value =
     (case scopes st self of
        None \<Rightarrow> Inl Undefined
      | Some s \<Rightarrow>
          bind_r (lookup_variable s hnd) (\<lambda>(found, v_index).
            if found then Inr (st, (self, v_index))
            else if \<not> v_index \<le> length (variables s) then Inl Aborted
            else
              bind_r (filterx_object_ref st initial_value) (\<lambda>(st1, r).
                let v = \<lparr>v_handle = hnd, v_floating = floating, v_assigned = False, v_value = r\<rparr>
                in Inr (st1\<lparr>scopes := (scopes st1)(self \<mapsto>
                          s\<lparr>variables := g_array_insert_val (variables s) v_index v\<rparr>)\<rparr>,
                        (self, v_index)))))"


text \<open>
  One round of the loop of \<^verbatim>\<open>filterx_scope_sync_to_message\<close>, for the variable at
  index \<open>i\<close>.  The scratch buffer is truncated before each marshalling, so what is
  written to the message is what marshalling produced.
\<close>

definition sync_variable ::
  "'p value_layer \<Rightarrow> scope_ref \<Rightarrow> nat \<Rightarrow> 'p state \<times> log_message \<Rightarrow> fault + ('p state \<times> log_message)" where
  "sync_variable V self i x =
     (case x of (st, msg) \<Rightarrow>
        bind_r (read_variable st (self, i)) (\<lambda>v.
          if v_floating v then Inr (st, msg)
          else
            (case v_value v of
               None \<Rightarrow>
                 bind_r (update_variable st (self, i) (\<lambda>w. w\<lparr>v_assigned := False\<rparr>)) (\<lambda>st1.
                   Inr (st1, log_msg_unset_value msg (v_handle v)))
             | Some r \<Rightarrow>
                 (case objs st r of
                    None \<Rightarrow> Inl Undefined
                  | Some ob \<Rightarrow>
                      if v_assigned v \<or> modified_in_place ob then
                        bind_r (filterx_object_marshal V st r) (\<lambda>res.
                          case res of
                            None \<Rightarrow> Inl Aborted
                          | Some (bytes, t) \<Rightarrow>
                              bind_r (update_variable
                                        (st\<lparr>objs := (objs st)(r \<mapsto> ob\<lparr>modified_in_place := False\<rparr>)\<rparr>)
                                        (self, i) (\<lambda>w. w\<lparr>v_assigned := False\<rparr>)) (\<lambda>st1.
                                Inr (st1, log_msg_set_value_with_type msg (v_handle v) bytes t)))
                      else Inr (st, msg)))))"

text \<open>
  The loop: the indices in order.  It stops at the first fault and returns it with the
  store and the message as they were when it struck.
\<close>

fun sync_loop ::
  "'p value_layer \<Rightarrow> scope_ref \<Rightarrow> nat list \<Rightarrow> 'p state \<times> log_message \<Rightarrow>
     fault option \<times> 'p state \<times> log_message" where
  "sync_loop V self [] x = (None, x)"
| "sync_loop V self (i # is) x =
     (case sync_variable V self i x of
        Inl e \<Rightarrow> (Some e, x)
      | Inr y \<Rightarrow> sync_loop V self is y)"

text \<open>
  The loop counter of the two \<^verbatim>\<open>for\<close> loops is a \<^verbatim>\<open>gint\<close> compared with the
  \<^verbatim>\<open>guint\<close> length: a table longer than the largest \<^verbatim>\<open>gint\<close> overflows it.
\<close>

definition filterx_scope_sync_to_message ::
  "'p value_layer \<Rightarrow> 'p state \<Rightarrow> scope_ref \<Rightarrow> log_message \<Rightarrow> fault option \<times> 'p state \<times> log_message" where
  "filterx_scope_sync_to_message V st self msg =
     (case scopes st self of
        None \<Rightarrow> (Some Undefined, st, msg)
      | Some s \<Rightarrow>
          if gint_max < int (length (variables s)) then (Some Undefined, st, msg)
          else sync_loop V self [0..<length (variables s)] (st, msg))"

definition filterx_scope_new :: "'p state \<Rightarrow> 'p state \<times> scope_ref" where
  "filterx_scope_new st =
     (st\<lparr>scopes := (scopes st)(next_scope st \<mapsto>
            \<lparr>ref_cnt = 1, variables = [], weak_refs = [], write_protected = False\<rparr>),
          next_scope := next_scope st + 1\<rparr>,
      next_scope st)"

text \<open>\<^verbatim>\<open>g_array_append_val\<close> on the table of a scope.\<close>

definition append_variable :: "'p state \<Rightarrow> scope_ref \<Rightarrow> filterx_variable \<Rightarrow> fault + 'p state" where
  "append_variable st self v =
     (case scopes st self of
        None \<Rightarrow> Inl Undefined
      | Some s \<Rightarrow> Inr (st\<lparr>scopes := (scopes st)(self \<mapsto> s\<lparr>variables := variables s @ [v]\<rparr>)\<rparr>))"

text \<open>The loop of \<^verbatim>\<open>filterx_scope_clone\<close>.\<close>

fun clone_loop ::
  "'p value_layer \<Rightarrow> scope_ref \<Rightarrow> scope_ref \<Rightarrow> nat list \<Rightarrow> 'p state \<Rightarrow> fault + 'p state" where
  "clone_loop V other self [] st = Inr st"
| "clone_loop V other self (i # is) st =
     bind_r (read_variable st (other, i)) (\<lambda>v.
     bind_r (append_variable st self v) (\<lambda>st1.
     bind_r (filterx_object_clone V st1 (v_value v)) (\<lambda>(st2, c).
     bind_r (update_variable st2 (self, i) (\<lambda>w. w\<lparr>v_value := c\<rparr>)) (\<lambda>st3.
     clone_loop V other self is st3))))"

definition filterx_scope_clone ::
  "'p value_layer \<Rightarrow> 'p state \<Rightarrow> scope_ref \<Rightarrow> fault + ('p state \<times> scope_ref)" where
  "filterx_scope_clone V st other =
     (case filterx_scope_new st of (st0, self) \<Rightarrow>
        (case scopes st0 other of
           None \<Rightarrow> Inl Undefined
         | Some s \<Rightarrow>
             if gint_max < int (length (variables s)) then Inl Undefined
             else
               bind_r (clone_loop V other self [0..<length (variables s)] st0) (\<lambda>st1.
                 Inr (st1, self))))"


text \<open>
  \<^verbatim>\<open>_free\<close>: the clear function of the array releases the value of every variable,
  the free function of the pointer array releases every weak reference, and the scope
  itself is freed.
\<close>

fun free_variables :: "'p state \<Rightarrow> filterx_variable list \<Rightarrow> fault + 'p state" where
  "free_variables st [] = Inr st"
| "free_variables st (v # vs) = bind_r (variable_free st v) (\<lambda>st1. free_variables st1 vs)"

fun free_weak_refs :: "'p state \<Rightarrow> obj_ref list \<Rightarrow> fault + 'p state" where
  "free_weak_refs st [] = Inr st"
| "free_weak_refs st (r # rs) = bind_r (filterx_object_unref st (Some r)) (\<lambda>st1. free_weak_refs st1 rs)"

definition scope_free :: "'p state \<Rightarrow> scope_ref \<Rightarrow> fault + 'p state" where
  "scope_free st self =
     (case scopes st self of
        None \<Rightarrow> Inl Undefined
      | Some s \<Rightarrow>
          bind_r (free_variables st (variables s)) (\<lambda>st1.
          bind_r (free_weak_refs st1 (weak_refs s)) (\<lambda>st2.
            Inr (st2\<lparr>scopes := (scopes st2)(self := None)\<rparr>))))"

definition filterx_scope_ref :: "'p state \<Rightarrow> scope_ref option \<Rightarrow> fault + ('p state \<times> scope_ref option)" where
  "filterx_scope_ref st self =
     (case self of
        None \<Rightarrow> Inr (st, None)
      | Some a \<Rightarrow>
          (case scopes st a of
             None \<Rightarrow> Inl Undefined
           | Some s \<Rightarrow> Inr (st\<lparr>scopes := (scopes st)(a \<mapsto> s\<lparr>ref_cnt := ref_cnt s + 1\<rparr>)\<rparr>, Some a)))"

definition filterx_scope_unref :: "'p state \<Rightarrow> scope_ref option \<Rightarrow> fault + 'p state" where
  "filterx_scope_unref st self =
     (case self of
        None \<Rightarrow> Inr st
      | Some a \<Rightarrow>
          (case scopes st a of
             None \<Rightarrow> Inl Undefined
           | Some s \<Rightarrow>
               (let st1 = st\<lparr>scopes := (scopes st)(a \<mapsto> s\<lparr>ref_cnt := ref_cnt s - 1\<rparr>)\<rparr>
                in if ref_cnt s - 1 = 0 then scope_free st1 a else Inr st1)))"

text \<open>
  \<^verbatim>\<open>filterx_scope_make_writable\<close>: the result is the store and the new value of
  \<^verbatim>\<open>*pself\<close>, which is also what the C function returns.
\<close>

definition filterx_scope_make_writable ::
  "'p value_layer \<Rightarrow> 'p state \<Rightarrow> scope_ref \<Rightarrow> fault + ('p state \<times> scope_ref)" where
  "filterx_scope_make_writable V st pself =
     (case scopes st pself of
        None \<Rightarrow> Inl Undefined
      | Some s \<Rightarrow>
          if write_protected s then
            bind_r (filterx_scope_clone V st pself) (\<lambda>(st1, new).
            bind_r (filterx_scope_unref st1 (Some pself)) (\<lambda>st2.
              Inr (st2, new)))
          else Inr (st, pself))"

subsection \<open>The message reference expression\<close>

text \<open>
  The methods of \<^verbatim>\<open>FilterXMessageRefExpr\<close>; \<open>hnd\<close> is \<^verbatim>\<open>self->handle\<close>.  The C
  names start with an underscore (\<^verbatim>\<open>_eval\<close>, \<^verbatim>\<open>_assign\<close>, \<^verbatim>\<open>_isset\<close>,
  \<^verbatim>\<open>_unset\<close>, \<^verbatim>\<open>_update_repr\<close>); here they carry the prefix \<open>expr\<close>.
\<close>

definition pull_variable_from_message ::
  "'p value_layer \<Rightarrow> eval_context \<Rightarrow> 'p state \<Rightarrow> nvhandle \<Rightarrow> fault + ('p state \<times> obj_ref option)" where
  "pull_variable_from_message V context st hnd =
     (case log_msg_get_value_if_set_with_type (ctx_msg context) hnd of
        None \<Rightarrow> Inr (st, None)
      | Some (bytes, t) \<Rightarrow>
          (case filterx_message_value_new_borrowed V st bytes t of (st1, msg_ref) \<Rightarrow>
             bind_r (filterx_scope_register_variable st1 (ctx_scope context) hnd False (Some msg_ref))
               (\<lambda>(st2, _). Inr (st2, Some msg_ref))))"

definition whiteout_variable :: "eval_context \<Rightarrow> 'p state \<Rightarrow> nvhandle \<Rightarrow> fault + 'p state" where
  "whiteout_variable context st hnd =
     bind_r (filterx_scope_register_variable st (ctx_scope context) hnd False None)
       (\<lambda>(st1, _). Inr st1)"

definition expr_eval ::
  "'p value_layer \<Rightarrow> eval_context \<Rightarrow> 'p state \<Rightarrow> nvhandle \<Rightarrow> fault + ('p state \<times> obj_ref option)" where
  "expr_eval V context st hnd =
     bind_r (filterx_scope_lookup_variable st (ctx_scope context) hnd) (\<lambda>variable.
       case variable of
         Some v \<Rightarrow> filterx_variable_get_value st v
       | None \<Rightarrow> pull_variable_from_message V context st hnd)"


definition expr_assign ::
  "'p value_layer \<Rightarrow> eval_context \<Rightarrow> 'p state \<Rightarrow> nvhandle \<Rightarrow> obj_ref option \<Rightarrow> fault + ('p state \<times> bool)" where
  "expr_assign V context st hnd new_value =
     bind_r (filterx_scope_lookup_variable st (ctx_scope context) hnd) (\<lambda>variable.
     bind_r (case variable of
               None \<Rightarrow> filterx_scope_register_variable st (ctx_scope context) hnd False None
             | Some v \<Rightarrow> Inr (st, v)) (\<lambda>(st1, v).
     bind_r (filterx_object_clone V st1 new_value) (\<lambda>(st2, cloned).
     bind_r (filterx_variable_set_value st2 v cloned) (\<lambda>st3.
     bind_r (filterx_object_unref st3 cloned) (\<lambda>st4.
       Inr (st4, True))))))"

definition expr_isset :: "eval_context \<Rightarrow> 'p state \<Rightarrow> nvhandle \<Rightarrow> fault + bool" where
  "expr_isset context st hnd =
     bind_r (filterx_scope_lookup_variable st (ctx_scope context) hnd) (\<lambda>variable.
       case variable of
         Some v \<Rightarrow> filterx_variable_is_set st v
       | None \<Rightarrow> Inr (log_msg_is_value_set (ctx_msg context) hnd))"

definition expr_unset :: "eval_context \<Rightarrow> 'p state \<Rightarrow> nvhandle \<Rightarrow> fault + ('p state \<times> bool)" where
  "expr_unset context st hnd =
     bind_r (filterx_scope_lookup_variable st (ctx_scope context) hnd) (\<lambda>variable.
       case variable of
         Some v \<Rightarrow> bind_r (filterx_variable_unset_value st v) (\<lambda>st1. Inr (st1, True))
       | None \<Rightarrow>
           if log_msg_is_value_set (ctx_msg context) hnd then
             bind_r (whiteout_variable context st hnd) (\<lambda>st1. Inr (st1, True))
           else Inr (st, True))"

subsection \<open>Invariants of the table\<close>

text \<open>The table is sorted strictly ascending by handle, so no handle occurs twice.\<close>

definition strictly_sorted :: "filterx_variable list \<Rightarrow> bool" where
  "strictly_sorted vs = sorted_wrt (<) (map v_handle vs)"

subsection \<open>A small value layer and store for worked examples\<close>

text \<open>
  Three kinds of contents: immutable typed bytes (what a message value holds), a mutable
  container, and contents that cannot be marshalled.
\<close>

datatype example_data = Bytes string nat | Container string | Unmarshallable

definition example_layer :: "example_data value_layer" where
  "example_layer =
     \<lparr>is_mutable = (\<lambda>d. case d of Container _ \<Rightarrow> True | _ \<Rightarrow> False),
      type_clone = (\<lambda>ob. ob\<lparr>modified_in_place := False\<rparr>),
      marshal = (\<lambda>d. case d of Bytes b t \<Rightarrow> Some (b, t) | Container b \<Rightarrow> Some (b, 7) | Unmarshallable \<Rightarrow> None),
      message_value = Bytes\<rparr>"

definition empty_state :: "example_data state" where
  "empty_state = \<lparr>objs = Map.empty, next_obj = 0, scopes = Map.empty, next_scope = 0\<rparr>"

definition empty_message :: log_message where
  "empty_message = \<lparr>nv = Map.empty, msg_ops = []\<rparr>"

text \<open>
  A scope in the middle of an evaluation, write protected and shared by two holders:
  handle 3 was pulled from the message and not touched, 5 is a floating variable, 9 was
  assigned, 12 is a whiteout and 20 holds a container that was changed in place.
\<close>

definition example_scope :: filterx_scope where
  "example_scope =
     \<lparr>ref_cnt = 2,
      variables =
        [\<lparr>v_handle = 3, v_floating = False, v_assigned = False, v_value = Some 0\<rparr>,
         \<lparr>v_handle = 5, v_floating = True, v_assigned = True, v_value = Some 1\<rparr>,
         \<lparr>v_handle = 9, v_floating = False, v_assigned = True, v_value = Some 2\<rparr>,
         \<lparr>v_handle = 12, v_floating = False, v_assigned = False, v_value = None\<rparr>,
         \<lparr>v_handle = 20, v_floating = False, v_assigned = False, v_value = Some 3\<rparr>],
      weak_refs = [3],
      write_protected = True\<rparr>"

definition example_state :: "example_data state" where
  "example_state =
     \<lparr>objs = [0 \<mapsto> \<lparr>obj_ref_cnt = 1, modified_in_place = False, obj_data = Bytes ''hello'' 0\<rparr>,
              1 \<mapsto> \<lparr>obj_ref_cnt = 1, modified_in_place = False, obj_data = Container ''[]''\<rparr>,
              2 \<mapsto> \<lparr>obj_ref_cnt = 1, modified_in_place = False, obj_data = Bytes ''42'' 4\<rparr>,
              3 \<mapsto> \<lparr>obj_ref_cnt = 2, modified_in_place = True, obj_data = Container ''{}''\<rparr>],
      next_obj = 4,
      scopes = [0 \<mapsto> example_scope],
      next_scope = 1\<rparr>"

definition example_message :: log_message where
  "example_message = \<lparr>nv = [3 \<mapsto> (''hello'', 0), 12 \<mapsto> (''x'', 0), 30 \<mapsto> (''y'', 0)], msg_ops = []\<rparr>"

subsection \<open>A sequence of register calls\<close>

fun register_all ::
  "'p state \<Rightarrow> scope_ref \<Rightarrow> (nvhandle \<times> bool \<times> obj_ref option) list \<Rightarrow> fault + 'p state" where
  "register_all st self [] = Inr st"
| "register_all st self ((hnd, floating, initial_value) # rest) =
     bind_r (filterx_scope_register_variable st self hnd floating initial_value)
       (\<lambda>(st1, _). register_all st1 self rest)"

definition registered :: "nvhandle \<times> bool \<times> obj_ref option \<Rightarrow> filterx_variable" where
  "registered x =
     (case x of (hnd, floating, initial_value) \<Rightarrow>
        \<lparr>v_handle = hnd, v_floating = floating, v_assigned = False, v_value = initial_value\<rparr>)"

text \<open>A scope whose second variable holds a value that cannot be marshalled.\<close>

definition broken_state :: "example_data state" where
  "broken_state =
     \<lparr>objs = [0 \<mapsto> \<lparr>obj_ref_cnt = 1, modified_in_place = False, obj_data = Unmarshallable\<rparr>],
      next_obj = 1,
      scopes = [0 \<mapsto> \<lparr>ref_cnt = 1,
                       variables =
                         [\<lparr>v_handle = 3, v_floating = False, v_assigned = True, v_value = None\<rparr>,
                          \<lparr>v_handle = 9, v_floating = False, v_assigned = True, v_value = Some 0\<rparr>],
                       weak_refs = [],
                       write_protected = False\<rparr>],
      next_scope = 1\<rparr>"

definition example_context :: eval_context where
  "example_context = \<lparr>ctx_scope = 0, ctx_msg = example_message\<rparr>"

subsection \<open>Cloning the values of a table\<close>

text \<open>
  What the loop of \<^verbatim>\<open>filterx_scope_clone\<close> does to the store of objects: the values
  of the table are cloned from left to right.
\<close>

fun clone_values ::
  "'p value_layer \<Rightarrow> 'p state \<Rightarrow> obj_ref option list \<Rightarrow> fault + ('p state \<times> obj_ref option list)" where
  "clone_values V st [] = Inr (st, [])"
| "clone_values V st (p # ps) =
     bind_r (filterx_object_clone V st p) (\<lambda>(st1, c).
     bind_r (clone_values V st1 ps) (\<lambda>(st2, cs). Inr (st2, c # cs)))"

text \<open>The table of the clone: each variable as it is, with the clone of its value.\<close>

definition cloned_variables :: "filterx_variable list \<Rightarrow> obj_ref option list \<Rightarrow> filterx_variable list" where
  "cloned_variables vs cs = map2 (\<lambda>v c. v\<lparr>v_value := c\<rparr>) vs cs"

text \<open>
  How the store after cloning the values \<open>ps\<close> relates to the store before: every old
  object keeps its contents and its flag and gains one reference for each clone that
  shares it, only immutable objects are shared, and every new object is the clone of one
  value and has the single reference of that clone.
\<close>

definition clone_post ::
  "'p value_layer \<Rightarrow> 'p state \<Rightarrow> obj_ref option list \<Rightarrow> 'p state \<Rightarrow> obj_ref option list \<Rightarrow> bool" where
  "clone_post V st ps st1 cs \<longleftrightarrow>
     length cs = length ps
   \<and> next_obj st \<le> next_obj st1
   \<and> (\<forall>r\<ge>next_obj st1. objs st1 r = None \<and> count_list cs (Some r) = 0)
   \<and> (\<forall>r<next_obj st.
         objs st1 r = map_option (\<lambda>ob. ob\<lparr>obj_ref_cnt := obj_ref_cnt ob + int (count_list cs (Some r))\<rparr>) (objs st r)
       \<and> count_list cs (Some r) =
           (case objs st r of
              None \<Rightarrow> 0
            | Some ob \<Rightarrow> if is_mutable V (obj_data ob) then 0 else count_list ps (Some r)))
   \<and> (\<forall>r. next_obj st \<le> r \<and> r < next_obj st1 \<longrightarrow>
         count_list cs (Some r) = 1 \<and> (\<exists>ob'. objs st1 r = Some ob' \<and> obj_ref_cnt ob' = 1))
   \<and> (\<forall>i<length ps.
         (ps ! i = None \<longrightarrow> cs ! i = None)
       \<and> (\<forall>r ob. ps ! i = Some r \<and> objs st r = Some ob \<longrightarrow>
             (if is_mutable V (obj_data ob)
              then \<exists>c. cs ! i = Some c \<and> next_obj st \<le> c \<and> c < next_obj st1
                     \<and> objs st1 c = Some ((type_clone V ob)\<lparr>obj_ref_cnt := 1\<rparr>)
              else cs ! i = Some r)))"

subsection \<open>The references a scope holds\<close>

text \<open>
  A scope holds one reference for each variable whose value is the object and one for
  each entry of its weak references (\<^verbatim>\<open>filterx_scope_store_weak_ref\<close> acquires the
  object, and the free function of the pointer array releases it).
\<close>

definition value_refs :: "filterx_scope \<Rightarrow> obj_ref \<Rightarrow> nat" where
  "value_refs s r = count_list (map v_value (variables s)) (Some r)"

definition scope_refs :: "filterx_scope \<Rightarrow> obj_ref \<Rightarrow> nat" where
  "scope_refs s r = value_refs s r + count_list (weak_refs s) r"

text \<open>The objects a scope refers to are live and count at least the scope's references.\<close>

definition owns_refs :: "'p state \<Rightarrow> filterx_scope \<Rightarrow> bool" where
  "owns_refs st s \<longleftrightarrow>
     (\<forall>r. 0 < scope_refs s r \<longrightarrow>
        (\<exists>ob. objs st r = Some ob \<and> int (scope_refs s r) \<le> obj_ref_cnt ob))"

text \<open>Releasing a list of references from left to right, as \<^verbatim>\<open>_free\<close> does.\<close>

fun release_all :: "'p state \<Rightarrow> obj_ref option list \<Rightarrow> fault + 'p state" where
  "release_all st [] = Inr st"
| "release_all st (p # ps) = bind_r (filterx_object_unref st p) (\<lambda>st1. release_all st1 ps)"

subsection \<open>Two scopes that sync alike\<close>

text \<open>
  Scope \<open>a\<close> in store \<open>stA\<close> and scope \<open>b\<close> in store \<open>stB\<close> agree on the variables
  with index in \<open>I\<close>: same handle and floating flag, and the variable is floating in
  both, or a whiteout in both, or assigned in both with values of equal contents, or
  untouched in both (not assigned, the value not modified in place).
\<close>

definition sync_alike ::
  "nat set \<Rightarrow> 'p state \<Rightarrow> scope_ref \<Rightarrow> 'p state \<Rightarrow> scope_ref \<Rightarrow> bool" where
  "sync_alike I stA a stB b \<longleftrightarrow>
     (\<exists>sA sB. scopes stA a = Some sA \<and> scopes stB b = Some sB
        \<and> length (variables sB) = length (variables sA)
        \<and> (\<forall>i\<in>I. i < length (variables sA)
              \<and> v_handle (variables sB ! i) = v_handle (variables sA ! i)
              \<and> v_floating (variables sB ! i) = v_floating (variables sA ! i)
              \<and> (v_floating (variables sA ! i)
                 \<or> (v_value (variables sA ! i) = None \<and> v_value (variables sB ! i) = None)
                 \<or> (\<exists>rA rB obA obB.
                       v_value (variables sA ! i) = Some rA \<and> v_value (variables sB ! i) = Some rB
                     \<and> objs stA rA = Some obA \<and> objs stB rB = Some obB
                     \<and> ((v_assigned (variables sA ! i) \<and> v_assigned (variables sB ! i)
                          \<and> obj_data obA = obj_data obB)
                        \<or> (\<not> v_assigned (variables sA ! i) \<and> \<not> v_assigned (variables sB ! i)
                           \<and> \<not> modified_in_place obA \<and> \<not> modified_in_place obB))))))"

text \<open>
  A write protected scope, shared by two holders, with pending work only: handle 3 was
  read and not touched, 5 is floating, 9 was assigned a container and 12 is a whiteout.
\<close>

definition pending_scope :: filterx_scope where
  "pending_scope =
     \<lparr>ref_cnt = 2,
      variables =
        [\<lparr>v_handle = 3, v_floating = False, v_assigned = False, v_value = Some 0\<rparr>,
         \<lparr>v_handle = 5, v_floating = True, v_assigned = True, v_value = Some 1\<rparr>,
         \<lparr>v_handle = 9, v_floating = False, v_assigned = True, v_value = Some 2\<rparr>,
         \<lparr>v_handle = 12, v_floating = False, v_assigned = False, v_value = None\<rparr>],
      weak_refs = [2],
      write_protected = True\<rparr>"

definition pending_state :: "example_data state" where
  "pending_state =
     \<lparr>objs = [0 \<mapsto> \<lparr>obj_ref_cnt = 1, modified_in_place = False, obj_data = Bytes ''hello'' 0\<rparr>,
              1 \<mapsto> \<lparr>obj_ref_cnt = 1, modified_in_place = False, obj_data = Container ''[]''\<rparr>,
              2 \<mapsto> \<lparr>obj_ref_cnt = 2, modified_in_place = True, obj_data = Container ''{}''\<rparr>],
      next_obj = 3,
      scopes = [0 \<mapsto> pending_scope],
      next_scope = 1\<rparr>"

subsection \<open>Mutations of a scope and what another scope observes\<close>






text \<open>
  What can be observed of a scope: the scope itself (its table with the handles, the
  flags and the values, its weak references, its reference count and its write
  protection) and, for the value of each variable and for each object that the weak
  references track, the contents and the modified in place flag.
\<close>

definition object_contents :: "'p state \<Rightarrow> obj_ref \<Rightarrow> (bool \<times> 'p) option" where
  "object_contents st r = map_option (\<lambda>ob. (modified_in_place ob, obj_data ob)) (objs st r)"

definition scope_view ::
  "'p state \<Rightarrow> scope_ref \<Rightarrow>
     (filterx_scope \<times> (bool \<times> 'p) option option list \<times> (bool \<times> 'p) option list) option" where
  "scope_view st a =
     map_option
       (\<lambda>s. (s, map (\<lambda>v. map_option (object_contents st) (v_value v)) (variables s),
                 map (object_contents st) (weak_refs s)))
       (scopes st a)"

text \<open>An object is freed when its count reaches zero, so a live object counts at least one.\<close>

definition counts_positive :: "'p state \<Rightarrow> bool" where
  "counts_positive st \<longleftrightarrow> (\<forall>r ob. objs st r = Some ob \<longrightarrow> 0 < obj_ref_cnt ob)"

text \<open>
  The invariant that keeps two scopes apart: the objects they refer to are live and
  count at least the references of both, and an object that both refer to (in a
  variable or in the weak references) is immutable and not modified in place.
\<close>

definition isolated :: "'p value_layer \<Rightarrow> 'p state \<Rightarrow> scope_ref \<Rightarrow> scope_ref \<Rightarrow> bool" where
  "isolated V st x y \<longleftrightarrow>
     x \<noteq> y \<and> counts_positive st
   \<and> (\<exists>sx sy. scopes st x = Some sx \<and> scopes st y = Some sy
        \<and> (\<forall>r. 0 < scope_refs sx r + scope_refs sy r \<longrightarrow>
              (\<exists>ob. objs st r = Some ob
                  \<and> int (scope_refs sx r + scope_refs sy r) \<le> obj_ref_cnt ob))
        \<and> (\<forall>r ob. 0 < scope_refs sx r \<and> 0 < scope_refs sy r \<and> objs st r = Some ob \<longrightarrow>
              \<not> is_mutable V (obj_data ob) \<and> \<not> modified_in_place ob))"





text \<open>
  The store after \<^verbatim>\<open>filterx_scope_make_writable\<close> on \<open>example_scope\<close>: the clone is scope
  1, the two containers were copied to the objects 4 and 5, and the immutable objects 0
  and 2 are shared.
\<close>

definition example_clone_state :: "example_data state" where
  "example_clone_state =
     \<lparr>objs = [0 \<mapsto> \<lparr>obj_ref_cnt = 2, modified_in_place = False, obj_data = Bytes ''hello'' 0\<rparr>,
              1 \<mapsto> \<lparr>obj_ref_cnt = 1, modified_in_place = False, obj_data = Container ''[]''\<rparr>,
              2 \<mapsto> \<lparr>obj_ref_cnt = 2, modified_in_place = False, obj_data = Bytes ''42'' 4\<rparr>,
              3 \<mapsto> \<lparr>obj_ref_cnt = 2, modified_in_place = True, obj_data = Container ''{}''\<rparr>,
              4 \<mapsto> \<lparr>obj_ref_cnt = 1, modified_in_place = False, obj_data = Container ''[]''\<rparr>,
              5 \<mapsto> \<lparr>obj_ref_cnt = 1, modified_in_place = False, obj_data = Container ''{}''\<rparr>],
      next_obj = 6,
      scopes = [0 \<mapsto> example_scope\<lparr>ref_cnt := 1\<rparr>,
                1 \<mapsto> \<lparr>ref_cnt = 1,
                       variables =
                         [\<lparr>v_handle = 3, v_floating = False, v_assigned = False, v_value = Some 0\<rparr>,
                          \<lparr>v_handle = 5, v_floating = True, v_assigned = True, v_value = Some 4\<rparr>,
                          \<lparr>v_handle = 9, v_floating = False, v_assigned = True, v_value = Some 2\<rparr>,
                          \<lparr>v_handle = 12, v_floating = False, v_assigned = False, v_value = None\<rparr>,
                          \<lparr>v_handle = 20, v_floating = False, v_assigned = False, v_value = Some 5\<rparr>],
                       weak_refs = [],
                       write_protected = False\<rparr>],
      next_scope = 2\<rparr>"

section \<open>Properties\<close>

subsection \<open>The result monad and the binary search\<close>

lemma gint_bound_simps: "gint_max = 2147483647" "gint_min = - 2147483648"
  by (simp_all add: gint_max_def gint_min_def)

lemma initial_upper_bound:
  "n \<le> 2 ^ 30 \<Longrightarrow> gint_of_guint (guint_sub n 1) = int n - 1"
proof (cases "n = 0")
  case True
  then show ?thesis by (simp add: guint_sub_def gint_of_guint_def)
next
  case False
  assume "n \<le> 2 ^ 30"
  with False have "(int n - 1) mod 2 ^ 32 = int n - 1"
    by (intro mod_pos_pos_trivial) auto
  with False \<open>n \<le> 2 ^ 30\<close> show ?thesis
    by (auto simp add: guint_sub_def gint_of_guint_def)
qed

lemma lookup_loop_correct:
  assumes "sorted_wrt (<) (map v_handle vs)" and "length vs \<le> 2 ^ 30"
    and "0 \<le> l" and "h < int (length vs)" and "l \<le> h + 1"
    and "\<forall>k<nat l. v_handle (vs ! k) < hnd"
    and "\<forall>k. nat (h + 1) \<le> k \<and> k < length vs \<longrightarrow> hnd < v_handle (vs ! k)"
  shows "(\<exists>i. lookup_loop vs hnd l h = Inr (True, i) \<and> i < length vs \<and> v_handle (vs ! i) = hnd)
       \<or> (\<exists>k. lookup_loop vs hnd l h = Inr (False, k) \<and> k \<le> length vs
              \<and> (\<forall>j<k. v_handle (vs ! j) < hnd)
              \<and> (\<forall>j. k \<le> j \<and> j < length vs \<longrightarrow> hnd < v_handle (vs ! j)))"
  using assms
proof (induction vs hnd l h rule: lookup_loop.induct)
  case (1 vs hnd l h)
  show ?case
  proof (cases "l \<le> h")
    case False
    with "1.prems" have lh: "l = h + 1" by simp
    with "1.prems" False have "lookup_loop vs hnd l h = Inr (False, nat l)"
      by (subst lookup_loop.simps) auto
    moreover have "nat l \<le> length vs" using "1.prems" lh by auto
    ultimately show ?thesis using "1.prems" lh by auto
  next
    case True
    define m where "m = (l + h) div 2"
    have mb: "l \<le> m" "m \<le> h" using True by (auto simp: m_def)
    have nov: "\<not> (l + h < gint_min \<or> gint_max < l + h)"
      using "1.prems" True by (auto simp: gint_bound_simps)
    have inb: "\<not> (m < 0 \<or> int (length vs) \<le> m)" using mb "1.prems" by auto
    have sortedD: "\<And>i j. i < j \<Longrightarrow> j < length vs \<Longrightarrow> v_handle (vs ! i) < v_handle (vs ! j)"
      using "1.prems"(1) by (auto simp: sorted_wrt_iff_nth_less)
    consider (eq) "v_handle (vs ! nat m) = hnd"
      | (gt) "v_handle (vs ! nat m) \<noteq> hnd" "v_handle (vs ! nat m) > hnd"
      | (lt) "v_handle (vs ! nat m) \<noteq> hnd" "\<not> v_handle (vs ! nat m) > hnd"
      by blast
    then show ?thesis
    proof cases
      case eq
      have "lookup_loop vs hnd l h = Inr (True, nat m)"
        using True nov inb eq by (subst lookup_loop.simps) (simp add: m_def Let_def)
      then show ?thesis using eq inb by auto
    next
      case gt
      have step: "lookup_loop vs hnd l h = lookup_loop vs hnd l (m - 1)"
        using True nov inb gt by (subst lookup_loop.simps) (simp add: m_def Let_def)
      have up: "\<forall>k. nat (m - 1 + 1) \<le> k \<and> k < length vs \<longrightarrow> hnd < v_handle (vs ! k)"
      proof (intro allI impI)
        fix k assume k: "nat (m - 1 + 1) \<le> k \<and> k < length vs"
        show "hnd < v_handle (vs ! k)"
        proof (cases "k = nat m")
          case True then show ?thesis using gt by simp
        next
          case False
          with k have "nat m < k" by auto
          then have "v_handle (vs ! nat m) < v_handle (vs ! k)" using k by (intro sortedD) auto
          with gt show ?thesis by simp
        qed
      qed
      have "(\<exists>i. lookup_loop vs hnd l (m - 1) = Inr (True, i) \<and> i < length vs \<and> v_handle (vs ! i) = hnd)
       \<or> (\<exists>k. lookup_loop vs hnd l (m - 1) = Inr (False, k) \<and> k \<le> length vs
              \<and> (\<forall>j<k. v_handle (vs ! j) < hnd)
              \<and> (\<forall>j. k \<le> j \<and> j < length vs \<longrightarrow> hnd < v_handle (vs ! j)))"
        apply (rule "1.IH"(1)[OF True nov m_def inb refl gt(1) gt(2)])
        using "1.prems" mb up by auto
      then show ?thesis by (simp only: step)
    next
      case lt
      then have lt': "v_handle (vs ! nat m) < hnd" by auto
      have step: "lookup_loop vs hnd l h = lookup_loop vs hnd (m + 1) h"
        using True nov inb lt by (subst lookup_loop.simps) (simp add: m_def Let_def)
      have low: "\<forall>k<nat (m + 1). v_handle (vs ! k) < hnd"
      proof (intro allI impI)
        fix k assume k: "k < nat (m + 1)"
        show "v_handle (vs ! k) < hnd"
        proof (cases "k = nat m")
          case True then show ?thesis using lt' by simp
        next
          case False
          with k mb "1.prems" have "k < nat m" by auto
          moreover have "nat m < length vs" using inb by auto
          ultimately have "v_handle (vs ! k) < v_handle (vs ! nat m)" by (rule sortedD)
          with lt' show ?thesis by simp
        qed
      qed
      have "(\<exists>i. lookup_loop vs hnd (m + 1) h = Inr (True, i) \<and> i < length vs \<and> v_handle (vs ! i) = hnd)
       \<or> (\<exists>k. lookup_loop vs hnd (m + 1) h = Inr (False, k) \<and> k \<le> length vs
              \<and> (\<forall>j<k. v_handle (vs ! j) < hnd)
              \<and> (\<forall>j. k \<le> j \<and> j < length vs \<longrightarrow> hnd < v_handle (vs ! j)))"
        apply (rule "1.IH"(2)[OF True nov m_def inb refl lt(1) lt(2)])
        using "1.prems" mb low by auto
      then show ?thesis by (simp only: step)
    qed
  qed
qed



lemma bind_r_simps [simp]:
  "bind_r (Inl e) f = Inl e"
  "bind_r (Inr x) f = f x"
  by (simp_all add: bind_r_def)

lemma strictly_sorted_nth:
  "strictly_sorted vs \<Longrightarrow> i < j \<Longrightarrow> j < length vs \<Longrightarrow> v_handle (vs ! i) < v_handle (vs ! j)"
  by (auto simp: strictly_sorted_def sorted_wrt_iff_nth_less)

lemma strictly_sorted_unique:
  assumes "strictly_sorted vs" "i < length vs" "j < length vs" "v_handle (vs ! i) = v_handle (vs ! j)"
  shows "i = j"
proof (rule ccontr)
  assume "i \<noteq> j"
  then consider "i < j" | "j < i" by linarith
  then show False
    using strictly_sorted_nth[OF assms(1), of i j] strictly_sorted_nth[OF assms(1), of j i] assms
    by cases auto
qed

lemma lookup_variable_cases:
  assumes "strictly_sorted (variables s)" and "length (variables s) \<le> 2 ^ 30"
  shows "(\<exists>i. lookup_variable s hnd = Inr (True, i) \<and> i < length (variables s)
              \<and> v_handle (variables s ! i) = hnd)
       \<or> (\<exists>k. lookup_variable s hnd = Inr (False, k) \<and> k \<le> length (variables s)
              \<and> (\<forall>j<k. v_handle (variables s ! j) < hnd)
              \<and> (\<forall>j. k \<le> j \<and> j < length (variables s) \<longrightarrow> hnd < v_handle (variables s ! j)))"
proof -
  have h0: "gint_of_guint (guint_sub (length (variables s)) 1) = int (length (variables s)) - 1"
    using assms(2) by (rule initial_upper_bound)
  show ?thesis
    unfolding lookup_variable_def h0
    by (rule lookup_loop_correct) (use assms in \<open>auto simp: strictly_sorted_def\<close>)
qed

lemma lookup_variable_found:
  assumes "strictly_sorted (variables s)" and "length (variables s) \<le> 2 ^ 30"
    and "i < length (variables s)" and "v_handle (variables s ! i) = hnd"
  shows "lookup_variable s hnd = Inr (True, i)"
proof -
  from lookup_variable_cases[OF assms(1,2), of hnd]
  show ?thesis
  proof (elim disjE exE conjE)
    fix j assume "lookup_variable s hnd = Inr (True, j)" "j < length (variables s)"
      "v_handle (variables s ! j) = hnd"
    moreover from this assms have "j = i" by (intro strictly_sorted_unique[of "variables s"]) auto
    ultimately show ?thesis by simp
  next
    fix k assume k: "k \<le> length (variables s)" "\<forall>j<k. v_handle (variables s ! j) < hnd"
      "\<forall>j. k \<le> j \<and> j < length (variables s) \<longrightarrow> hnd < v_handle (variables s ! j)"
    have False
    proof (cases "i < k")
      case True
      with k(2) have "v_handle (variables s ! i) < hnd" by blast
      with assms(4) show False by simp
    next
      case False
      with k(3) assms(3) have "hnd < v_handle (variables s ! i)" by simp
      with assms(4) show False by simp
    qed
    then show ?thesis ..
  qed
qed

lemma lookup_variable_missing:
  assumes "strictly_sorted (variables s)" and "length (variables s) \<le> 2 ^ 30"
    and "hnd \<notin> v_handle ` set (variables s)"
  shows "\<exists>k. lookup_variable s hnd = Inr (False, k) \<and> k \<le> length (variables s)
              \<and> (\<forall>j<k. v_handle (variables s ! j) < hnd)
              \<and> (\<forall>j. k \<le> j \<and> j < length (variables s) \<longrightarrow> hnd < v_handle (variables s ! j))"
proof -
  from lookup_variable_cases[OF assms(1,2), of hnd]
  show ?thesis
  proof (elim disjE exE conjE)
    fix j assume "j < length (variables s)" "v_handle (variables s ! j) = hnd"
    then have "hnd \<in> v_handle ` set (variables s)" by (metis imageI nth_mem)
    with assms(3) show ?thesis by simp
  qed blast
qed

lemma strictly_sorted_insert:
  assumes "strictly_sorted vs" and "k \<le> length vs"
    and "\<forall>j<k. v_handle (vs ! j) < v_handle v"
    and "\<forall>j. k \<le> j \<and> j < length vs \<longrightarrow> v_handle v < v_handle (vs ! j)"
  shows "strictly_sorted (g_array_insert_val vs k v)"
proof -
  have a: "\<forall>x\<in>set (take k vs). v_handle x < v_handle v"
    using assms(2,3) by (auto simp: in_set_conv_nth)
  have b: "\<forall>y\<in>set (drop k vs). v_handle v < v_handle y"
    using assms(2,4) by (auto simp: in_set_conv_nth)
  have "sorted_wrt (<) (map v_handle (take k vs) @ map v_handle (drop k vs))"
    using assms(1) unfolding strictly_sorted_def
    by (metis append_take_drop_id map_append)
  then have c: "sorted_wrt (<) (map v_handle (take k vs))" "sorted_wrt (<) (map v_handle (drop k vs))"
    "\<forall>x\<in>set (take k vs). \<forall>y\<in>set (drop k vs). v_handle x < v_handle y"
    by (auto simp: sorted_wrt_append)
  show ?thesis
    unfolding strictly_sorted_def g_array_insert_val_def
    using a b c by (auto simp: sorted_wrt_append)
qed

subsection \<open>Lookup on an empty scope\<close>

text \<open>
  C10: a lookup on a scope with no variables returns no match and does not fault, for
  every handle: the upper bound of the search, the unsigned length minus one converted to
  \<^verbatim>\<open>gint\<close>, is \<open>-1\<close>, so the loop is not entered.
\<close>

theorem lookup_on_empty_scope:
  assumes "scopes st self = Some s" and "variables s = []"
  shows "gint_of_guint (guint_sub (length (variables s)) 1) = - 1
       \<and> lookup_variable s hnd = Inr (False, 0)
       \<and> filterx_scope_lookup_variable st self hnd = Inr None"
proof -
  have h: "gint_of_guint (guint_sub (length (variables s)) 1) = - 1"
    using assms(2) by (simp add: guint_sub_def gint_of_guint_def)
  have l: "lookup_variable s hnd = Inr (False, 0)"
    unfolding lookup_variable_def h using assms(2)
    by (subst lookup_loop.simps) simp
  show ?thesis
    using h l assms(1) by (simp add: filterx_scope_lookup_variable_def)
qed

theorem lookup_on_empty_scope_witness:
  "scopes (fst (filterx_scope_new empty_state)) 0
     = Some \<lparr>ref_cnt = 1, variables = [], weak_refs = [], write_protected = False\<rparr>
   \<and> filterx_scope_lookup_variable (fst (filterx_scope_new empty_state)) 0 5 = Inr None"
proof -
  have a: "scopes (fst (filterx_scope_new empty_state)) 0
     = Some \<lparr>ref_cnt = 1, variables = [], weak_refs = [], write_protected = False\<rparr>"
    by (simp add: filterx_scope_new_def empty_state_def)
  from lookup_on_empty_scope[OF a, of 5] a show ?thesis by simp
qed

lemma bind_r_eq_Inr:
  "bind_r m f = Inr y \<longleftrightarrow> (\<exists>x. m = Inr x \<and> f x = Inr y)"
  by (cases m) simp_all

lemma bind_r_eq_Inl:
  "bind_r m f = Inl e \<longleftrightarrow> m = Inl e \<or> (\<exists>x. m = Inr x \<and> f x = Inl e)"
  by (cases m) simp_all

subsection \<open>Acquire and release\<close>

lemma filterx_object_ref_None [simp]: "filterx_object_ref st None = Inr (st, None)"
  by (simp add: filterx_object_ref_def)

lemma filterx_object_ref_Some:
  "objs st r = Some ob \<Longrightarrow>
   filterx_object_ref st (Some r)
     = Inr (st\<lparr>objs := (objs st)(r \<mapsto> ob\<lparr>obj_ref_cnt := obj_ref_cnt ob + 1\<rparr>)\<rparr>, Some r)"
  by (simp add: filterx_object_ref_def)

lemma filterx_object_ref_InrD:
  assumes "filterx_object_ref st p = Inr (st1, q)"
  shows "q = p" and "scopes st1 = scopes st" and "next_obj st1 = next_obj st"
    and "next_scope st1 = next_scope st"
  using assms by (auto simp: filterx_object_ref_def split: option.splits)

lemma filterx_object_unref_None [simp]: "filterx_object_unref st None = Inr st"
  by (simp add: filterx_object_unref_def)

lemma filterx_object_unref_InrD:
  assumes "filterx_object_unref st p = Inr st1"
  shows "scopes st1 = scopes st" and "next_obj st1 = next_obj st"
    and "next_scope st1 = next_scope st"
  using assms by (auto simp: filterx_object_unref_def split: option.splits if_splits)

subsection \<open>Registering a variable\<close>

lemma g_array_insert_val_length [simp]:
  "length (g_array_insert_val xs i x) = Suc (length xs)"
  by (simp add: g_array_insert_val_def)

lemma g_array_insert_val_nth [simp]:
  "i \<le> length xs \<Longrightarrow> g_array_insert_val xs i x ! i = x"
  by (simp add: g_array_insert_val_def nth_append)

lemma g_array_insert_val_set [simp]:
  "set (g_array_insert_val xs i x) = insert x (set xs)"
proof -
  have "set (take i xs) \<union> set (drop i xs) = set xs"
    by (metis append_take_drop_id set_append)
  then show ?thesis by (auto simp: g_array_insert_val_def)
qed

lemma register_present:
  assumes "scopes st self = Some s" and "strictly_sorted (variables s)"
    and "length (variables s) \<le> 2 ^ 30"
    and "i < length (variables s)" and "v_handle (variables s ! i) = hnd"
  shows "filterx_scope_register_variable st self hnd fl init = Inr (st, (self, i))"
  using lookup_variable_found[OF assms(2-5)] assms(1)
  by (simp add: filterx_scope_register_variable_def)

lemma register_missing:
  assumes "scopes st self = Some s" and "strictly_sorted (variables s)"
    and "length (variables s) \<le> 2 ^ 30"
    and "hnd \<notin> v_handle ` set (variables s)"
    and "filterx_object_ref st init = Inr (st1, r)"
  shows "\<exists>k. k \<le> length (variables s)
           \<and> (\<forall>j<k. v_handle (variables s ! j) < hnd)
           \<and> (\<forall>j. k \<le> j \<and> j < length (variables s) \<longrightarrow> hnd < v_handle (variables s ! j))
           \<and> filterx_scope_register_variable st self hnd fl init
               = Inr (st1\<lparr>scopes := (scopes st1)(self \<mapsto>
                        s\<lparr>variables := g_array_insert_val (variables s) k
                             \<lparr>v_handle = hnd, v_floating = fl, v_assigned = False, v_value = init\<rparr>\<rparr>)\<rparr>,
                      (self, k))
           \<and> strictly_sorted (g_array_insert_val (variables s) k
                             \<lparr>v_handle = hnd, v_floating = fl, v_assigned = False, v_value = init\<rparr>)"
proof -
  from lookup_variable_missing[OF assms(2-4)] obtain k where
    k: "lookup_variable s hnd = Inr (False, k)" "k \<le> length (variables s)"
       "\<forall>j<k. v_handle (variables s ! j) < hnd"
       "\<forall>j. k \<le> j \<and> j < length (variables s) \<longrightarrow> hnd < v_handle (variables s ! j)"
    by blast
  have r: "r = init" using assms(5) by (rule filterx_object_ref_InrD)
  have "filterx_scope_register_variable st self hnd fl init
               = Inr (st1\<lparr>scopes := (scopes st1)(self \<mapsto>
                        s\<lparr>variables := g_array_insert_val (variables s) k
                             \<lparr>v_handle = hnd, v_floating = fl, v_assigned = False, v_value = init\<rparr>\<rparr>)\<rparr>,
                      (self, k))"
    using k(1,2) assms(1,5) r by (simp add: filterx_scope_register_variable_def)
  moreover have "strictly_sorted (g_array_insert_val (variables s) k
                             \<lparr>v_handle = hnd, v_floating = fl, v_assigned = False, v_value = init\<rparr>)"
    by (rule strictly_sorted_insert[OF assms(2) k(2)]) (use k in simp_all)
  ultimately show ?thesis using k by blast
qed

lemma register_result_cases:
  assumes "scopes st self = Some s" and "strictly_sorted (variables s)"
    and "length (variables s) \<le> 2 ^ 30"
    and "filterx_scope_register_variable st self hnd fl init = Inr (st1, v)"
  shows "\<exists>s1 k. v = (self, k) \<and> scopes st1 self = Some s1 \<and> strictly_sorted (variables s1)
           \<and> k < length (variables s1) \<and> v_handle (variables s1 ! k) = hnd
           \<and> length (variables s1) \<le> Suc (length (variables s))"
proof (cases "hnd \<in> v_handle ` set (variables s)")
  case True
  then obtain i where i: "i < length (variables s)" "v_handle (variables s ! i) = hnd"
    by (auto simp: in_set_conv_nth)
  from register_present[OF assms(1-3) i] assms(4) have "st1 = st" "v = (self, i)" by simp_all
  with assms(1,2) i show ?thesis by auto
next
  case False
  from assms(1,4) obtain st0 r where ref: "filterx_object_ref st init = Inr (st0, r)"
    using lookup_variable_missing[OF assms(2,3) False]
    by (auto simp: filterx_scope_register_variable_def bind_r_eq_Inr)
  from register_missing[OF assms(1-3) False ref, of fl] assms(4)
  obtain k where k: "k \<le> length (variables s)"
    "st1 = st0\<lparr>scopes := (scopes st0)(self \<mapsto>
                        s\<lparr>variables := g_array_insert_val (variables s) k
                             \<lparr>v_handle = hnd, v_floating = fl, v_assigned = False, v_value = init\<rparr>\<rparr>)\<rparr>"
    "v = (self, k)"
    "strictly_sorted (g_array_insert_val (variables s) k
                             \<lparr>v_handle = hnd, v_floating = fl, v_assigned = False, v_value = init\<rparr>)"
    by auto
  then show ?thesis by simp
qed

text \<open>
  C6: register is idempotent.  On a table that is strictly sorted (and short enough for
  the \<^verbatim>\<open>gint\<close> arithmetic of the search), registering a handle that is present at
  slot \<open>i\<close> returns slot \<open>i\<close> and leaves the whole store as it was: the table, its size,
  the slot's value and flags, and the reference count of the initial value, which is
  dropped.  And whatever a first register of \<open>hnd\<close> returned, a second one, with any
  floating flag and any initial value, returns the same slot and changes nothing.
\<close>

theorem register_idempotent:
  assumes "scopes st self = Some s" and "strictly_sorted (variables s)"
    and "length (variables s) < 2 ^ 30"
  shows "(\<forall>i. i < length (variables s) \<and> v_handle (variables s ! i) = hnd \<longrightarrow>
            filterx_scope_register_variable st self hnd fl init = Inr (st, (self, i)))
       \<and> (\<forall>st1 v. filterx_scope_register_variable st self hnd fl init = Inr (st1, v) \<longrightarrow>
            filterx_scope_register_variable st1 self hnd fl' init' = Inr (st1, v))"
proof (intro conjI allI impI)
  fix i assume "i < length (variables s) \<and> v_handle (variables s ! i) = hnd"
  then show "filterx_scope_register_variable st self hnd fl init = Inr (st, (self, i))"
    using register_present[OF assms(1,2)] assms(3) by simp
next
  fix st1 v assume r: "filterx_scope_register_variable st self hnd fl init = Inr (st1, v)"
  have le: "length (variables s) \<le> 2 ^ 30" using assms(3) by simp
  from register_result_cases[OF assms(1,2) le r] obtain s1 k where
    k: "v = (self, k)" "scopes st1 self = Some s1" "strictly_sorted (variables s1)"
       "k < length (variables s1)" "v_handle (variables s1 ! k) = hnd"
       "length (variables s1) \<le> Suc (length (variables s))"
    by blast
  have "length (variables s1) \<le> 2 ^ 30" using k(6) assms(3) by simp
  from register_present[OF k(2,3) this k(4,5)] k(1)
  show "filterx_scope_register_variable st1 self hnd fl' init' = Inr (st1, v)" by simp
qed

subsection \<open>Sequences of register calls\<close>

lemma example_scope_sorted: "strictly_sorted (variables example_scope)"
  by (simp add: strictly_sorted_def example_scope_def)

lemma example_state_scope: "scopes example_state 0 = Some example_scope"
  by (simp add: example_state_def)

theorem register_idempotent_witness:
  "scopes example_state 0 = Some example_scope
   \<and> strictly_sorted (variables example_scope)
   \<and> length (variables example_scope) < 2 ^ 30
   \<and> filterx_scope_register_variable example_state 0 9 True (Some 1) = Inr (example_state, (0, 2))"
proof -
  have len: "length (variables example_scope) < 2 ^ 30" by (simp add: example_scope_def)
  have "2 < length (variables example_scope) \<and> v_handle (variables example_scope ! 2) = 9"
    by (simp add: example_scope_def)
  with register_idempotent[OF example_state_scope example_scope_sorted len, of 9 True "Some 1"]
  have "filterx_scope_register_variable example_state 0 9 True (Some 1) = Inr (example_state, (0, 2))"
    by blast
  with example_state_scope example_scope_sorted len show ?thesis by simp
qed

lemma filterx_object_ref_total:
  assumes "init = None \<or> (\<exists>r. init = Some r \<and> objs st r \<noteq> None)"
  shows "\<exists>st1. filterx_object_ref st init = Inr (st1, init)"
  using assms by (auto simp: filterx_object_ref_def)

lemma filterx_object_ref_live:
  assumes "filterx_object_ref st p = Inr (st1, q)"
  shows "objs st1 x = None \<longleftrightarrow> objs st x = None"
  using assms by (auto simp: filterx_object_ref_def split: option.splits if_splits)

lemma register_all_invariant:
  assumes "scopes st self = Some s" and "strictly_sorted (variables s)"
    and "length (variables s) + length regs \<le> 2 ^ 30"
    and "distinct (map fst regs)" and "fst ` set regs \<inter> v_handle ` set (variables s) = {}"
    and "\<forall>x\<in>set regs. snd (snd x) = None \<or> (\<exists>r. snd (snd x) = Some r \<and> objs st r \<noteq> None)"
  shows "\<exists>st' s'. register_all st self regs = Inr st' \<and> scopes st' self = Some s'
           \<and> strictly_sorted (variables s')
           \<and> set (variables s') = set (variables s) \<union> registered ` set regs
           \<and> length (variables s') = length (variables s) + length regs"
  using assms
proof (induction regs arbitrary: st s)
  case Nil
  then show ?case by simp
next
  case (Cons x regs)
  obtain hnd fl init where x: "x = (hnd, fl, init)" by (cases x) auto
  have miss: "hnd \<notin> v_handle ` set (variables s)" using Cons.prems(5) x by auto
  have le: "length (variables s) \<le> 2 ^ 30" using Cons.prems(3) by simp
  from Cons.prems(6) x obtain st1 where ref: "filterx_object_ref st init = Inr (st1, init)"
    using filterx_object_ref_total[of init st] by auto
  from register_missing[OF Cons.prems(1,2) le miss ref, of fl] obtain k where
    k: "k \<le> length (variables s)"
       "filterx_scope_register_variable st self hnd fl init
               = Inr (st1\<lparr>scopes := (scopes st1)(self \<mapsto>
                        s\<lparr>variables := g_array_insert_val (variables s) k (registered x)\<rparr>)\<rparr>,
                      (self, k))"
       "strictly_sorted (g_array_insert_val (variables s) k (registered x))"
    unfolding registered_def x by auto
  define s2 where "s2 = s\<lparr>variables := g_array_insert_val (variables s) k (registered x)\<rparr>"
  define st2 where "st2 = st1\<lparr>scopes := (scopes st1)(self \<mapsto> s2)\<rparr>"
  have a1: "scopes st2 self = Some s2" by (simp add: st2_def)
  have a2: "strictly_sorted (variables s2)" using k(3) by (simp add: s2_def)
  have a3: "length (variables s2) + length regs \<le> 2 ^ 30" using Cons.prems(3) by (simp add: s2_def)
  have a4: "distinct (map fst regs)" using Cons.prems(4) by simp
  have hx: "v_handle (registered x) = hnd" by (simp add: registered_def x)
  have a5: "fst ` set regs \<inter> v_handle ` set (variables s2) = {}"
    using Cons.prems(4,5) x hx by (auto simp: s2_def)
  have live: "\<And>y. objs st2 y = None \<longleftrightarrow> objs st y = None"
    using filterx_object_ref_live[OF ref] by (simp add: st2_def)
  have a6: "\<forall>x\<in>set regs. snd (snd x) = None \<or> (\<exists>r. snd (snd x) = Some r \<and> objs st2 r \<noteq> None)"
    using Cons.prems(6) live by auto
  from Cons.IH[OF a1 a2 a3 a4 a5 a6] obtain st' s' where
    r: "register_all st2 self regs = Inr st'" "scopes st' self = Some s'"
       "strictly_sorted (variables s')"
       "set (variables s') = set (variables s2) \<union> registered ` set regs"
       "length (variables s') = length (variables s2) + length regs"
    by blast
  have "register_all st self (x # regs) = Inr st'"
    using k(2) r(1) by (simp add: x st2_def s2_def)
  moreover have "set (variables s') = set (variables s) \<union> registered ` set (x # regs)"
    using r(4) by (auto simp: s2_def)
  moreover have "length (variables s') = length (variables s) + length (x # regs)"
    using r(5) by (simp add: s2_def)
  ultimately show ?case using r(2,3) by blast
qed

lemma lookup_present:
  assumes "scopes st self = Some s" and "strictly_sorted (variables s)"
    and "length (variables s) \<le> 2 ^ 30"
    and "i < length (variables s)" and "v_handle (variables s ! i) = hnd"
  shows "filterx_scope_lookup_variable st self hnd = Inr (Some (self, i))"
  using lookup_variable_found[OF assms(2-5)] assms(1)
  by (simp add: filterx_scope_lookup_variable_def)

lemma lookup_missing:
  assumes "scopes st self = Some s" and "strictly_sorted (variables s)"
    and "length (variables s) \<le> 2 ^ 30"
    and "hnd \<notin> v_handle ` set (variables s)"
  shows "filterx_scope_lookup_variable st self hnd = Inr None"
  using lookup_variable_missing[OF assms(2-4)] assms(1)
  by (auto simp: filterx_scope_lookup_variable_def)

lemma strictly_sorted_distinct: "strictly_sorted vs \<Longrightarrow> distinct (map v_handle vs)"
proof -
  assume a: "strictly_sorted vs"
  have "\<And>i j. i < length vs \<Longrightarrow> j < length vs \<Longrightarrow> i \<noteq> j \<Longrightarrow> v_handle (vs ! i) \<noteq> v_handle (vs ! j)"
    using strictly_sorted_unique[OF a] by blast
  then show ?thesis by (simp add: distinct_conv_nth)
qed


text \<open>
  C7: starting from a scope with no variables, after any number of register calls with
  distinct handles (at most \<open>2 ^ 30\<close> of them, each initial value absent or a live
  Value), and so after every prefix of such a sequence, the table is sorted strictly
  ascending by handle with no handle twice and holds exactly the registered variables;
  lookup of a registered handle returns the slot that holds it, and lookup of any other
  handle returns no match.
\<close>

theorem register_keeps_table_sorted:
  assumes "scopes st self = Some s" and "variables s = []"
    and "distinct (map fst regs)" and "length regs \<le> 2 ^ 30"
    and "\<forall>x\<in>set regs. snd (snd x) = None \<or> (\<exists>r. snd (snd x) = Some r \<and> objs st r \<noteq> None)"
  shows "\<forall>n\<le>length regs. \<exists>st' s'.
           register_all st self (take n regs) = Inr st' \<and> scopes st' self = Some s'
         \<and> strictly_sorted (variables s') \<and> distinct (map v_handle (variables s'))
         \<and> set (variables s') = registered ` set (take n regs)
         \<and> length (variables s') = n
         \<and> (\<forall>x\<in>set (take n regs). \<exists>i.
               filterx_scope_lookup_variable st' self (fst x) = Inr (Some (self, i))
               \<and> i < length (variables s') \<and> variables s' ! i = registered x)
         \<and> (\<forall>hnd. hnd \<notin> fst ` set (take n regs) \<longrightarrow>
               filterx_scope_lookup_variable st' self hnd = Inr None)"
proof (intro allI impI)
  fix n assume n: "n \<le> length regs"
  define rs where "rs = take n regs"
  have sorted0: "strictly_sorted (variables s)" using assms(2) by (simp add: strictly_sorted_def)
  have len: "length (variables s) + length rs \<le> 2 ^ 30" using assms(2,4) n by (simp add: rs_def)
  have dist: "distinct (map fst rs)" using assms(3) by (simp add: rs_def distinct_take take_map[symmetric])
  have disj: "fst ` set rs \<inter> v_handle ` set (variables s) = {}" using assms(2) by simp
  have live: "\<forall>x\<in>set rs. snd (snd x) = None \<or> (\<exists>r. snd (snd x) = Some r \<and> objs st r \<noteq> None)"
    using assms(5) by (auto simp: rs_def dest: in_set_takeD)
  from register_all_invariant[OF assms(1) sorted0 len dist disj live] obtain st' s' where
    r: "register_all st self rs = Inr st'" "scopes st' self = Some s'"
       "strictly_sorted (variables s')"
       "set (variables s') = registered ` set rs"
       "length (variables s') = length rs"
    using assms(2) by auto
  have len': "length (variables s') \<le> 2 ^ 30" using r(5) len by simp
  have hreg: "\<And>x. v_handle (registered x) = fst x" by (auto simp: registered_def split: prod.splits)
  have found: "\<forall>x\<in>set rs. \<exists>i.
               filterx_scope_lookup_variable st' self (fst x) = Inr (Some (self, i))
               \<and> i < length (variables s') \<and> variables s' ! i = registered x"
  proof
    fix x assume "x \<in> set rs"
    then have "registered x \<in> set (variables s')" using r(4) by simp
    then obtain i where i: "i < length (variables s')" "variables s' ! i = registered x"
      by (auto simp: in_set_conv_nth)
    then have "v_handle (variables s' ! i) = fst x" by (simp add: hreg)
    from lookup_present[OF r(2,3) len' i(1) this] i
    show "\<exists>i. filterx_scope_lookup_variable st' self (fst x) = Inr (Some (self, i))
               \<and> i < length (variables s') \<and> variables s' ! i = registered x"
      by blast
  qed
  have missing: "\<forall>hnd. hnd \<notin> fst ` set rs \<longrightarrow> filterx_scope_lookup_variable st' self hnd = Inr None"
  proof (intro allI impI)
    fix hnd assume "hnd \<notin> fst ` set rs"
    then have "hnd \<notin> v_handle ` set (variables s')"
      using r(4) hreg by (auto simp: image_image)
    from lookup_missing[OF r(2,3) len' this]
    show "filterx_scope_lookup_variable st' self hnd = Inr None" .
  qed
  have "length (variables s') = n" using r(5) n by (simp add: rs_def)
  with r found missing strictly_sorted_distinct[OF r(3)]
  show "\<exists>st' s'.
           register_all st self (take n regs) = Inr st' \<and> scopes st' self = Some s'
         \<and> strictly_sorted (variables s') \<and> distinct (map v_handle (variables s'))
         \<and> set (variables s') = registered ` set (take n regs)
         \<and> length (variables s') = n
         \<and> (\<forall>x\<in>set (take n regs). \<exists>i.
               filterx_scope_lookup_variable st' self (fst x) = Inr (Some (self, i))
               \<and> i < length (variables s') \<and> variables s' ! i = registered x)
         \<and> (\<forall>hnd. hnd \<notin> fst ` set (take n regs) \<longrightarrow>
               filterx_scope_lookup_variable st' self hnd = Inr None)"
    unfolding rs_def[symmetric] by blast
qed

theorem register_keeps_table_sorted_witness:
  "\<exists>st' s'. register_all (fst (filterx_scope_new empty_state)) 0
               [(9, False, None), (3, True, None), (5, False, None)] = Inr st'
     \<and> scopes st' 0 = Some s' \<and> strictly_sorted (variables s') \<and> length (variables s') = 3
     \<and> filterx_scope_lookup_variable st' 0 7 = Inr None"
proof -
  define st where "st = fst (filterx_scope_new empty_state)"
  define regs :: "(nvhandle \<times> bool \<times> obj_ref option) list"
    where "regs = [(9, False, None), (3, True, None), (5, False, None)]"
  have a: "scopes st 0 = Some \<lparr>ref_cnt = 1, variables = [], weak_refs = [], write_protected = False\<rparr>"
    by (simp add: st_def filterx_scope_new_def empty_state_def)
  have b: "variables \<lparr>ref_cnt = 1, variables = [], weak_refs = [], write_protected = False\<rparr> = []"
    by simp
  have c: "distinct (map fst regs)" by (simp add: regs_def)
  have d: "length regs \<le> 2 ^ 30" by (simp add: regs_def)
  have e: "\<forall>x\<in>set regs. snd (snd x) = None \<or> (\<exists>r. snd (snd x) = Some r \<and> objs st r \<noteq> None)"
    by (simp add: regs_def)
  have f: "(7 :: nvhandle) \<notin> fst ` set (take 3 regs)" by (simp add: regs_def)
  have g: "3 \<le> length regs" and h: "take 3 regs = regs" by (simp_all add: regs_def)
  from register_keeps_table_sorted[OF a b c d e, THEN spec, of 3, THEN mp, OF g]
  obtain st' s' where r: "register_all st 0 (take 3 regs) = Inr st'" "scopes st' 0 = Some s'"
    "strictly_sorted (variables s')" "length (variables s') = 3"
    "\<forall>hnd. hnd \<notin> fst ` set (take 3 regs) \<longrightarrow> filterx_scope_lookup_variable st' 0 hnd = Inr None"
    by blast
  from r(5) f have "filterx_scope_lookup_variable st' 0 7 = Inr None" by blast
  with r(1-4) h have "\<exists>st' s'. register_all st 0 regs = Inr st'
     \<and> scopes st' 0 = Some s' \<and> strictly_sorted (variables s') \<and> length (variables s') = 3
     \<and> filterx_scope_lookup_variable st' 0 7 = Inr None"
    by auto
  then show ?thesis unfolding st_def regs_def .
qed

subsection \<open>Reading and writing slots\<close>

lemma read_variable_Some:
  "scopes st a = Some s \<Longrightarrow> i < length (variables s) \<Longrightarrow> read_variable st (a, i) = Inr (variables s ! i)"
  by (simp add: read_variable_def)

lemma read_variable_InrD:
  "read_variable st p = Inr v \<Longrightarrow>
   \<exists>s. scopes st (fst p) = Some s \<and> snd p < length (variables s) \<and> v = variables s ! snd p"
  by (auto simp: read_variable_def split: option.splits if_splits)

lemma update_variable_Some:
  "scopes st a = Some s \<Longrightarrow> i < length (variables s) \<Longrightarrow>
   update_variable st (a, i) f
     = Inr (st\<lparr>scopes := (scopes st)(a \<mapsto> s\<lparr>variables := (variables s)[i := f (variables s ! i)]\<rparr>)\<rparr>)"
  by (simp add: update_variable_def)

subsection \<open>Sync to the message\<close>

lemma sync_variable_floating:
  assumes "scopes st self = Some s" and "i < length (variables s)"
    and "v_floating (variables s ! i)"
  shows "sync_variable V self i (st, msg) = Inr (st, msg)"
  using assms by (simp add: sync_variable_def read_variable_Some)

lemma sync_variable_absent:
  assumes "scopes st self = Some s" and "i < length (variables s)"
    and "\<not> v_floating (variables s ! i)" and "v_value (variables s ! i) = None"
  shows "sync_variable V self i (st, msg)
         = Inr (st\<lparr>scopes := (scopes st)(self \<mapsto>
                   s\<lparr>variables := (variables s)[i := (variables s ! i)\<lparr>v_assigned := False\<rparr>]\<rparr>)\<rparr>,
                log_msg_unset_value msg (v_handle (variables s ! i)))"
  using assms by (simp add: sync_variable_def read_variable_Some update_variable_Some)

lemma sync_variable_changed:
  assumes "scopes st self = Some s" and "i < length (variables s)"
    and "\<not> v_floating (variables s ! i)" and "v_value (variables s ! i) = Some r"
    and "objs st r = Some ob" and "v_assigned (variables s ! i) \<or> modified_in_place ob"
    and "marshal V (obj_data ob) = Some (bytes, t)"
  shows "sync_variable V self i (st, msg)
         = Inr (st\<lparr>objs := (objs st)(r \<mapsto> ob\<lparr>modified_in_place := False\<rparr>),
                    scopes := (scopes st)(self \<mapsto>
                      s\<lparr>variables := (variables s)[i := (variables s ! i)\<lparr>v_assigned := False\<rparr>]\<rparr>)\<rparr>,
                log_msg_set_value_with_type msg (v_handle (variables s ! i)) bytes t)"
  using assms
  by (simp add: sync_variable_def read_variable_Some update_variable_Some filterx_object_marshal_def)

lemma sync_variable_unchanged:
  assumes "scopes st self = Some s" and "i < length (variables s)"
    and "\<not> v_floating (variables s ! i)" and "v_value (variables s ! i) = Some r"
    and "objs st r = Some ob" and "\<not> v_assigned (variables s ! i)" and "\<not> modified_in_place ob"
  shows "sync_variable V self i (st, msg) = Inr (st, msg)"
  using assms by (simp add: sync_variable_def read_variable_Some)

lemma sync_variable_marshal_fails:
  assumes "scopes st self = Some s" and "i < length (variables s)"
    and "\<not> v_floating (variables s ! i)" and "v_value (variables s ! i) = Some r"
    and "objs st r = Some ob" and "v_assigned (variables s ! i) \<or> modified_in_place ob"
    and "marshal V (obj_data ob) = None"
  shows "sync_variable V self i (st, msg) = Inl Aborted"
  using assms
  by (simp add: sync_variable_def read_variable_Some filterx_object_marshal_def)

lemma sync_loop_append:
  "sync_loop V self (xs @ ys) x =
     (case sync_loop V self xs x of
        (None, y) \<Rightarrow> sync_loop V self ys y
      | (Some e, y) \<Rightarrow> (Some e, y))"
  by (induction xs arbitrary: x) (auto split: sum.splits)

lemma sync_loop_snoc:
  "sync_loop V self [0..<Suc n] x =
     (case sync_loop V self [0..<n] x of
        (None, y) \<Rightarrow> (case sync_variable V self n y of Inl e \<Rightarrow> (Some e, y) | Inr z \<Rightarrow> (None, z))
      | (Some e, y) \<Rightarrow> (Some e, y))"
  by (simp add: sync_loop_append split: option.splits prod.splits sum.splits)

lemma sync_loop_untouched:
  assumes "scopes st self = Some s"
    and "\<forall>i\<in>set is. i < length (variables s) \<and>
           (v_floating (variables s ! i)
            \<or> (\<exists>r ob. v_value (variables s ! i) = Some r \<and> objs st r = Some ob
                  \<and> \<not> v_assigned (variables s ! i) \<and> \<not> modified_in_place ob))"
  shows "sync_loop V self is (st, msg) = (None, st, msg)"
  using assms(2)
proof (induction "is")
  case Nil
  then show ?case by simp
next
  case (Cons i "is")
  have "sync_variable V self i (st, msg) = Inr (st, msg)"
  proof (cases "v_floating (variables s ! i)")
    case True
    with Cons.prems show ?thesis by (intro sync_variable_floating[OF assms(1)]) auto
  next
    case False
    with Cons.prems obtain r ob where "i < length (variables s)"
      "v_value (variables s ! i) = Some r" "objs st r = Some ob"
      "\<not> v_assigned (variables s ! i)" "\<not> modified_in_place ob" by auto
    with False show ?thesis by (intro sync_variable_unchanged[OF assms(1)]) auto
  qed
  with Cons show ?case by simp
qed

text \<open>
  C1: \<^verbatim>\<open>filterx_scope_sync_to_message\<close> runs the indices of the table in ascending
  order (the sync of the first \<open>n + 1\<close> variables is the sync of the first \<open>n\<close> followed
  by variable \<open>n\<close>), and the round for a variable does one of four things.  A floating
  variable: nothing, store and message are returned as they were.  A variable with no
  value: \<^verbatim>\<open>log_msg_unset_value\<close> on its handle, and \<open>assigned\<close> cleared.  A
  variable whose value is present and that is assigned or whose value has
  \<open>modified_in_place\<close> set: the marshalled bytes and type are written with
  \<^verbatim>\<open>log_msg_set_value_with_type\<close>, then \<open>modified_in_place\<close> and \<open>assigned\<close>
  are cleared.  A variable whose value is present, not assigned and not modified in place:
  nothing.  So a table with only floating and untouched variables leaves the message
  without a single unset or set call.
\<close>

theorem sync_to_message_per_variable:
  assumes "scopes st self = Some s" and "int (length (variables s)) \<le> gint_max"
  shows "filterx_scope_sync_to_message V st self msg
           = sync_loop V self [0..<length (variables s)] (st, msg)
       \<and> (\<forall>n x. sync_loop V self [0..<Suc n] x =
             (case sync_loop V self [0..<n] x of
                (None, y) \<Rightarrow>
                  (case sync_variable V self n y of Inl e \<Rightarrow> (Some e, y) | Inr z \<Rightarrow> (None, z))
              | (Some e, y) \<Rightarrow> (Some e, y)))
       \<and> (\<forall>i<length (variables s). \<forall>m.
            (v_floating (variables s ! i) \<longrightarrow> sync_variable V self i (st, m) = Inr (st, m))
          \<and> (\<not> v_floating (variables s ! i) \<and> v_value (variables s ! i) = None \<longrightarrow>
               sync_variable V self i (st, m)
                 = Inr (st\<lparr>scopes := (scopes st)(self \<mapsto>
                           s\<lparr>variables := (variables s)[i := (variables s ! i)\<lparr>v_assigned := False\<rparr>]\<rparr>)\<rparr>,
                        log_msg_unset_value m (v_handle (variables s ! i))))
          \<and> (\<forall>r ob bytes t.
               \<not> v_floating (variables s ! i) \<and> v_value (variables s ! i) = Some r
               \<and> objs st r = Some ob \<and> (v_assigned (variables s ! i) \<or> modified_in_place ob)
               \<and> marshal V (obj_data ob) = Some (bytes, t) \<longrightarrow>
               sync_variable V self i (st, m)
                 = Inr (st\<lparr>objs := (objs st)(r \<mapsto> ob\<lparr>modified_in_place := False\<rparr>),
                            scopes := (scopes st)(self \<mapsto>
                              s\<lparr>variables := (variables s)[i := (variables s ! i)\<lparr>v_assigned := False\<rparr>]\<rparr>)\<rparr>,
                        log_msg_set_value_with_type m (v_handle (variables s ! i)) bytes t))
          \<and> (\<forall>r ob.
               \<not> v_floating (variables s ! i) \<and> v_value (variables s ! i) = Some r
               \<and> objs st r = Some ob \<and> \<not> v_assigned (variables s ! i) \<and> \<not> modified_in_place ob \<longrightarrow>
               sync_variable V self i (st, m) = Inr (st, m)))
       \<and> ((\<forall>i<length (variables s).
              v_floating (variables s ! i)
              \<or> (\<exists>r ob. v_value (variables s ! i) = Some r \<and> objs st r = Some ob
                    \<and> \<not> v_assigned (variables s ! i) \<and> \<not> modified_in_place ob)) \<longrightarrow>
            filterx_scope_sync_to_message V st self msg = (None, st, msg))"
proof -
  have loop: "filterx_scope_sync_to_message V st self msg
           = sync_loop V self [0..<length (variables s)] (st, msg)"
    using assms by (simp add: filterx_scope_sync_to_message_def)
  have untouched: "(\<forall>i<length (variables s).
              v_floating (variables s ! i)
              \<or> (\<exists>r ob. v_value (variables s ! i) = Some r \<and> objs st r = Some ob
                    \<and> \<not> v_assigned (variables s ! i) \<and> \<not> modified_in_place ob)) \<longrightarrow>
            filterx_scope_sync_to_message V st self msg = (None, st, msg)"
    unfolding loop by (intro impI sync_loop_untouched[OF assms(1)]) simp
  show ?thesis
  proof (intro conjI allI impI)
    show "filterx_scope_sync_to_message V st self msg
            = sync_loop V self [0..<length (variables s)] (st, msg)"
      by (rule loop)
  next
    fix n x
    show "sync_loop V self [0..<Suc n] x =
             (case sync_loop V self [0..<n] x of
                (None, y) \<Rightarrow>
                  (case sync_variable V self n y of Inl e \<Rightarrow> (Some e, y) | Inr z \<Rightarrow> (None, z))
              | (Some e, y) \<Rightarrow> (Some e, y))"
      by (rule sync_loop_snoc)
  next
    fix i m assume "i < length (variables s)" "v_floating (variables s ! i)"
    then show "sync_variable V self i (st, m) = Inr (st, m)"
      by (rule sync_variable_floating[OF assms(1)])
  next
    fix i m assume "i < length (variables s)"
      "\<not> v_floating (variables s ! i) \<and> v_value (variables s ! i) = None"
    then show "sync_variable V self i (st, m)
                 = Inr (st\<lparr>scopes := (scopes st)(self \<mapsto>
                           s\<lparr>variables := (variables s)[i := (variables s ! i)\<lparr>v_assigned := False\<rparr>]\<rparr>)\<rparr>,
                        log_msg_unset_value m (v_handle (variables s ! i)))"
      by (intro sync_variable_absent[OF assms(1)]) simp_all
  next
    fix i m r ob bytes t assume "i < length (variables s)"
      "\<not> v_floating (variables s ! i) \<and> v_value (variables s ! i) = Some r
               \<and> objs st r = Some ob \<and> (v_assigned (variables s ! i) \<or> modified_in_place ob)
               \<and> marshal V (obj_data ob) = Some (bytes, t)"
    then show "sync_variable V self i (st, m)
                 = Inr (st\<lparr>objs := (objs st)(r \<mapsto> ob\<lparr>modified_in_place := False\<rparr>),
                            scopes := (scopes st)(self \<mapsto>
                              s\<lparr>variables := (variables s)[i := (variables s ! i)\<lparr>v_assigned := False\<rparr>]\<rparr>)\<rparr>,
                        log_msg_set_value_with_type m (v_handle (variables s ! i)) bytes t)"
      by (intro sync_variable_changed[OF assms(1)]) simp_all
  next
    fix i m r ob assume "i < length (variables s)"
      "\<not> v_floating (variables s ! i) \<and> v_value (variables s ! i) = Some r
               \<and> objs st r = Some ob \<and> \<not> v_assigned (variables s ! i) \<and> \<not> modified_in_place ob"
    then show "sync_variable V self i (st, m) = Inr (st, m)"
      by (intro sync_variable_unchanged[OF assms(1), of i r ob]) simp_all
  next
    assume "\<forall>i<length (variables s).
              v_floating (variables s ! i)
              \<or> (\<exists>r ob. v_value (variables s ! i) = Some r \<and> objs st r = Some ob
                    \<and> \<not> v_assigned (variables s ! i) \<and> \<not> modified_in_place ob)"
    with untouched show "filterx_scope_sync_to_message V st self msg = (None, st, msg)" by blast
  qed
qed

lemmas example_defs = example_state_def example_scope_def example_layer_def example_message_def

lemmas run_defs = sync_variable_def read_variable_def update_variable_def
  filterx_object_marshal_def log_msg_unset_value_def log_msg_set_value_with_type_def

theorem sync_to_message_per_variable_witness:
  "scopes example_state 0 = Some example_scope
   \<and> int (length (variables example_scope)) \<le> gint_max
   \<and> fst (filterx_scope_sync_to_message example_layer example_state 0 example_message) = None
   \<and> msg_ops (snd (snd (filterx_scope_sync_to_message example_layer example_state 0 example_message)))
       = [Msg_set 9 ''42'' 4, Msg_unset 12, Msg_set 20 ''{}'' 7]"
proof -
  have len: "int (length (variables example_scope)) \<le> gint_max"
    by (simp add: example_scope_def gint_max_def)
  have n: "[0..<length (variables example_scope)] = [0, 1, 2, 3, 4]"
    by (simp add: example_scope_def upt_rec)
  from sync_to_message_per_variable[OF example_state_scope len, of example_layer example_message]
  have "filterx_scope_sync_to_message example_layer example_state 0 example_message
          = sync_loop example_layer 0 [0, 1, 2, 3, 4] (example_state, example_message)"
    unfolding n by blast
  moreover have "fst (sync_loop example_layer 0 [0, 1, 2, 3, 4] (example_state, example_message)) = None"
    by (simp add: run_defs example_defs)
  moreover have "msg_ops (snd (snd (sync_loop example_layer 0 [0, 1, 2, 3, 4] (example_state, example_message))))
       = [Msg_set 9 ''42'' 4, Msg_unset 12, Msg_set 20 ''{}'' 7]"
    by (simp add: run_defs example_defs)
  ultimately show ?thesis using example_state_scope len by simp
qed

text \<open>
  C8: when the loop reaches a variable that has to be written (not floating, value present,
  assigned or modified in place) and marshalling its value fails, the round aborts
  (\<^verbatim>\<open>g_assert_not_reached\<close>) and so does the sync.  The message at that point is the
  one the variables before it produced: no call of \<^verbatim>\<open>log_msg_set_value_with_type\<close>
  is made for the field, and the store still has the variable assigned.
\<close>

theorem sync_aborts_when_marshal_fails:
  assumes "scopes st self = Some s" and "int (length (variables s)) \<le> gint_max"
    and "n < length (variables s)"
    and "sync_loop V self [0..<n] (st, msg) = (None, st1, msg1)"
    and "scopes st1 self = Some s1" and "n < length (variables s1)"
    and "\<not> v_floating (variables s1 ! n)" and "v_value (variables s1 ! n) = Some r"
    and "objs st1 r = Some ob"
    and "v_assigned (variables s1 ! n) \<or> modified_in_place ob"
    and "marshal V (obj_data ob) = None"
  shows "sync_variable V self n (st1, msg1) = Inl Aborted
       \<and> filterx_scope_sync_to_message V st self msg = (Some Aborted, st1, msg1)"
proof -
  have step: "sync_variable V self n (st1, msg1) = Inl Aborted"
    by (rule sync_variable_marshal_fails[OF assms(5-11)])
  have split: "[0..<length (variables s)] = [0..<n] @ n # [Suc n..<length (variables s)]"
    using assms(3) by (metis le_add1 less_imp_add_positive upt_add_eq_append upt_conv_Cons zero_le)
  have "filterx_scope_sync_to_message V st self msg
          = sync_loop V self ([0..<n] @ n # [Suc n..<length (variables s)]) (st, msg)"
    using assms(1,2) split by (simp add: filterx_scope_sync_to_message_def)
  also have "\<dots> = (Some Aborted, st1, msg1)"
    using assms(4) step by (simp add: sync_loop_append)
  finally show ?thesis using step by simp
qed

theorem sync_aborts_when_marshal_fails_witness:
  "(\<exists>st1 msg1. sync_loop example_layer 0 [0..<1] (broken_state, example_message) = (None, st1, msg1)
      \<and> msg_ops msg1 = [Msg_unset 3]
      \<and> filterx_scope_sync_to_message example_layer broken_state 0 example_message
          = (Some Aborted, st1, msg1))"
proof -
  define s where "s = \<lparr>ref_cnt = 1,
                       variables =
                         [\<lparr>v_handle = 3, v_floating = False, v_assigned = True, v_value = None\<rparr>,
                          \<lparr>v_handle = 9, v_floating = False, v_assigned = True, v_value = Some 0\<rparr>],
                       weak_refs = [],
                       write_protected = False\<rparr>"
  define s1 where "s1 = s\<lparr>variables := [\<lparr>v_handle = 3, v_floating = False, v_assigned = False, v_value = None\<rparr>,
                          \<lparr>v_handle = 9, v_floating = False, v_assigned = True, v_value = Some 0\<rparr>]\<rparr>"
  define st1 where "st1 = broken_state\<lparr>scopes := (scopes broken_state)(0 \<mapsto> s1)\<rparr>"
  define msg1 where "msg1 = log_msg_unset_value example_message 3"
  define ob :: "example_data filterx_object"
    where "ob = \<lparr>obj_ref_cnt = 1, modified_in_place = False, obj_data = Unmarshallable\<rparr>"
  have a: "scopes broken_state 0 = Some s" by (simp add: broken_state_def s_def)
  have b: "int (length (variables s)) \<le> gint_max" by (simp add: s_def gint_max_def)
  have c: "1 < length (variables s)" by (simp add: s_def)
  have d: "sync_loop example_layer 0 [0..<1] (broken_state, example_message) = (None, st1, msg1)"
    by (simp add: run_defs broken_state_def st1_def s1_def s_def msg1_def)
  have e: "scopes st1 0 = Some s1" by (simp add: st1_def)
  have f: "1 < length (variables s1)" "\<not> v_floating (variables s1 ! 1)"
    "v_value (variables s1 ! 1) = Some 0" "v_assigned (variables s1 ! 1) \<or> modified_in_place ob"
    by (simp_all add: s1_def s_def)
  have g: "objs st1 0 = Some ob" by (simp add: st1_def broken_state_def ob_def)
  have h: "marshal example_layer (obj_data ob) = None" by (simp add: example_layer_def ob_def)
  from sync_aborts_when_marshal_fails[OF a b c d e f(1-3) g f(4) h]
  have "filterx_scope_sync_to_message example_layer broken_state 0 example_message
          = (Some Aborted, st1, msg1)" by simp
  moreover have "msg_ops msg1 = [Msg_unset 3]"
    by (simp add: msg1_def log_msg_unset_value_def example_message_def)
  ultimately show ?thesis using d by blast
qed

subsection \<open>Reading through the message reference\<close>

lemma filterx_object_unref_total:
  assumes "p = None \<or> (\<exists>r. p = Some r \<and> objs st r \<noteq> None)"
  shows "\<exists>st1. filterx_object_unref st p = Inr st1"
  using assms by (auto simp: filterx_object_unref_def)

lemma set_value_effect:
  assumes "scopes st a = Some s" and "i < length (variables s)"
    and "filterx_object_unref st (v_value (variables s ! i)) = Inr st1"
    and "filterx_object_ref st1 new = Inr (st2, r)"
  shows "filterx_variable_set_value st (a, i) new
         = Inr (st2\<lparr>scopes := (scopes st)(a \<mapsto>
                  s\<lparr>variables := (variables s)[i := (variables s ! i)\<lparr>v_value := new, v_assigned := True\<rparr>]\<rparr>)\<rparr>)"
proof -
  have s2: "scopes st2 = scopes st"
    using filterx_object_ref_InrD(2)[OF assms(4)] filterx_object_unref_InrD(1)[OF assms(3)] by simp
  have r: "r = new" using assms(4) by (rule filterx_object_ref_InrD)
  show ?thesis
    using assms s2 r
    by (simp add: filterx_variable_set_value_def read_variable_Some update_variable_def)
qed

text \<open>
  C2: reading through the message reference, on a scope whose table is strictly sorted.
  If the scope has a variable for the handle, the result is the value of that variable
  with one more reference for the caller; an absent value is returned as absent and is
  not a fault.  If it has none and the message has no value for the handle, absent is
  returned and the store is unchanged: nothing is registered.  If it has none and the
  message has a value, a new Value with the message's bytes and type is allocated,
  registered at the sorted position as a variable that is not floating and not assigned,
  and returned; it then has two references, the variable's and the caller's.  The new
  table is the old one with the new variable between the first \<open>k\<close> variables and the
  rest, and a lookup of the handle after the read finds the variable in slot \<open>k\<close>.
\<close>

theorem expr_eval_cases:
  assumes "scopes st (ctx_scope context) = Some s" and "strictly_sorted (variables s)"
    and "length (variables s) \<le> 2 ^ 30"
  shows "(\<forall>i. i < length (variables s) \<and> v_handle (variables s ! i) = hnd \<longrightarrow>
            expr_eval V context st hnd = filterx_object_ref st (v_value (variables s ! i))
          \<and> (v_value (variables s ! i) = None \<longrightarrow> expr_eval V context st hnd = Inr (st, None))
          \<and> (\<forall>r ob. v_value (variables s ! i) = Some r \<and> objs st r = Some ob \<longrightarrow>
                expr_eval V context st hnd
                  = Inr (st\<lparr>objs := (objs st)(r \<mapsto> ob\<lparr>obj_ref_cnt := obj_ref_cnt ob + 1\<rparr>)\<rparr>, Some r)))
       \<and> (hnd \<notin> v_handle ` set (variables s)
            \<and> log_msg_get_value_if_set_with_type (ctx_msg context) hnd = None \<longrightarrow>
            expr_eval V context st hnd = Inr (st, None))
       \<and> (\<forall>bytes t. hnd \<notin> v_handle ` set (variables s)
            \<and> log_msg_get_value_if_set_with_type (ctx_msg context) hnd = Some (bytes, t) \<longrightarrow>
            (\<exists>k\<le>length (variables s).
               (\<forall>j<k. v_handle (variables s ! j) < hnd)
             \<and> (\<forall>j. k \<le> j \<and> j < length (variables s) \<longrightarrow> hnd < v_handle (variables s ! j))
             \<and> expr_eval V context st hnd
                 = Inr (st\<lparr>objs := (objs st)(next_obj st \<mapsto>
                             \<lparr>obj_ref_cnt = 2, modified_in_place = False,
                              obj_data = message_value V bytes t\<rparr>),
                           next_obj := next_obj st + 1,
                           scopes := (scopes st)(ctx_scope context \<mapsto>
                             s\<lparr>variables := take k (variables s)
                                 @ \<lparr>v_handle = hnd, v_floating = False, v_assigned = False,
                                    v_value = Some (next_obj st)\<rparr>
                                 # drop k (variables s)\<rparr>)\<rparr>,
                        Some (next_obj st))
             \<and> (length (variables s) < 2 ^ 30 \<longrightarrow>
                  bind_r (expr_eval V context st hnd)
                    (\<lambda>(st', _). filterx_scope_lookup_variable st' (ctx_scope context) hnd)
                  = Inr (Some (ctx_scope context, k)))))"
proof (intro conjI allI impI)
  fix i assume i: "i < length (variables s) \<and> v_handle (variables s ! i) = hnd"
  then have look: "filterx_scope_lookup_variable st (ctx_scope context) hnd
                     = Inr (Some (ctx_scope context, i))"
    using lookup_present[OF assms] by simp
  show get: "expr_eval V context st hnd = filterx_object_ref st (v_value (variables s ! i))"
    using look i assms(1)
    by (simp add: expr_eval_def filterx_variable_get_value_def read_variable_Some)
  show "expr_eval V context st hnd = Inr (st, None)" if "v_value (variables s ! i) = None"
    using get that by simp
  show "expr_eval V context st hnd
          = Inr (st\<lparr>objs := (objs st)(r \<mapsto> ob\<lparr>obj_ref_cnt := obj_ref_cnt ob + 1\<rparr>)\<rparr>, Some r)"
    if "v_value (variables s ! i) = Some r \<and> objs st r = Some ob" for r ob
    using get that by (simp add: filterx_object_ref_Some)
next
  assume a: "hnd \<notin> v_handle ` set (variables s)
            \<and> log_msg_get_value_if_set_with_type (ctx_msg context) hnd = None"
  then have "filterx_scope_lookup_variable st (ctx_scope context) hnd = Inr None"
    using lookup_missing[OF assms] by simp
  with a show "expr_eval V context st hnd = Inr (st, None)"
    by (simp add: expr_eval_def pull_variable_from_message_def)
next
  fix bytes t
  assume a: "hnd \<notin> v_handle ` set (variables s)
            \<and> log_msg_get_value_if_set_with_type (ctx_msg context) hnd = Some (bytes, t)"
  then have look: "filterx_scope_lookup_variable st (ctx_scope context) hnd = Inr None"
    using lookup_missing[OF assms] by simp
  define ob :: "'a filterx_object" where
    "ob = \<lparr>obj_ref_cnt = 1, modified_in_place = False, obj_data = message_value V bytes t\<rparr>"
  define st1 where "st1 = st\<lparr>objs := (objs st)(next_obj st \<mapsto> ob), next_obj := next_obj st + 1\<rparr>"
  define v where "v = \<lparr>v_handle = hnd, v_floating = False, v_assigned = False,
                        v_value = Some (next_obj st)\<rparr>"
  have new: "filterx_message_value_new_borrowed V st bytes t = (st1, next_obj st)"
    by (simp add: filterx_message_value_new_borrowed_def alloc_object_def st1_def ob_def)
  have sc1: "scopes st1 (ctx_scope context) = Some s" using assms(1) by (simp add: st1_def)
  have ref: "filterx_object_ref st1 (Some (next_obj st))
               = Inr (st1\<lparr>objs := (objs st1)(next_obj st \<mapsto> ob\<lparr>obj_ref_cnt := obj_ref_cnt ob + 1\<rparr>)\<rparr>,
                      Some (next_obj st))"
    by (rule filterx_object_ref_Some) (simp add: st1_def)
  from register_missing[OF sc1 assms(2,3) a[THEN conjunct1] ref, of False, folded v_def] obtain k where
    k: "k \<le> length (variables s)" "\<forall>j<k. v_handle (variables s ! j) < hnd"
       "\<forall>j. k \<le> j \<and> j < length (variables s) \<longrightarrow> hnd < v_handle (variables s ! j)"
       "filterx_scope_register_variable st1 (ctx_scope context) hnd False (Some (next_obj st))
         = Inr (st1\<lparr>objs := (objs st1)(next_obj st \<mapsto> ob\<lparr>obj_ref_cnt := obj_ref_cnt ob + 1\<rparr>)\<rparr>
                  \<lparr>scopes := (scopes (st1\<lparr>objs := (objs st1)(next_obj st \<mapsto> ob\<lparr>obj_ref_cnt := obj_ref_cnt ob + 1\<rparr>)\<rparr>))
                     (ctx_scope context \<mapsto> s\<lparr>variables := g_array_insert_val (variables s) k v\<rparr>)\<rparr>,
                (ctx_scope context, k))"
       "strictly_sorted (g_array_insert_val (variables s) k v)"
    by (elim exE conjE) (rule that; assumption)
  define st' where "st' = st\<lparr>objs := (objs st)(next_obj st \<mapsto>
                             \<lparr>obj_ref_cnt = 2, modified_in_place = False,
                              obj_data = message_value V bytes t\<rparr>),
                           next_obj := next_obj st + 1,
                           scopes := (scopes st)(ctx_scope context \<mapsto>
                             s\<lparr>variables := take k (variables s) @ v # drop k (variables s)\<rparr>)\<rparr>"
  have tab: "g_array_insert_val (variables s) k v = take k (variables s) @ v # drop k (variables s)"
    by (simp add: g_array_insert_val_def)
  have ev: "expr_eval V context st hnd = Inr (st', Some (next_obj st))"
    using look a new k(4)
    by (simp add: expr_eval_def pull_variable_from_message_def st1_def ob_def st'_def tab)
  have after: "bind_r (expr_eval V context st hnd)
                    (\<lambda>(st', _). filterx_scope_lookup_variable st' (ctx_scope context) hnd)
                  = Inr (Some (ctx_scope context, k))"
    if small: "length (variables s) < 2 ^ 30"
  proof -
    define s' where "s' = s\<lparr>variables := take k (variables s) @ v # drop k (variables s)\<rparr>"
    have sc': "scopes st' (ctx_scope context) = Some s'" by (simp add: st'_def s'_def)
    have so: "strictly_sorted (variables s')" using k(5) by (simp add: s'_def tab)
    have ln: "length (variables s') \<le> 2 ^ 30" using small k(1) by (simp add: s'_def)
    have kl: "k < length (variables s')" using k(1) by (simp add: s'_def)
    have hk: "v_handle (variables s' ! k) = hnd" using k(1) by (simp add: s'_def nth_append v_def)
    from lookup_present[OF sc' so ln kl hk] ev show ?thesis by simp
  qed
  show "\<exists>k\<le>length (variables s).
               (\<forall>j<k. v_handle (variables s ! j) < hnd)
             \<and> (\<forall>j. k \<le> j \<and> j < length (variables s) \<longrightarrow> hnd < v_handle (variables s ! j))
             \<and> expr_eval V context st hnd
                 = Inr (st\<lparr>objs := (objs st)(next_obj st \<mapsto>
                             \<lparr>obj_ref_cnt = 2, modified_in_place = False,
                              obj_data = message_value V bytes t\<rparr>),
                           next_obj := next_obj st + 1,
                           scopes := (scopes st)(ctx_scope context \<mapsto>
                             s\<lparr>variables := take k (variables s)
                                 @ \<lparr>v_handle = hnd, v_floating = False, v_assigned = False,
                                    v_value = Some (next_obj st)\<rparr>
                                 # drop k (variables s)\<rparr>)\<rparr>,
                        Some (next_obj st))
             \<and> (length (variables s) < 2 ^ 30 \<longrightarrow>
                  bind_r (expr_eval V context st hnd)
                    (\<lambda>(st', _). filterx_scope_lookup_variable st' (ctx_scope context) hnd)
                  = Inr (Some (ctx_scope context, k)))"
    apply (rule exI[of _ k])
    apply (intro conjI)
        apply (rule k(1))
       apply (rule k(2))
      apply (rule k(3))
     apply (rule ev[unfolded st'_def v_def])
    apply (rule impI)
    apply (erule after)
    done
qed

lemma example_context_scope: "scopes example_state (ctx_scope example_context) = Some example_scope"
  by (simp add: example_context_def example_state_def)

lemma example_scope_length: "length (variables example_scope) \<le> 2 ^ 30"
  by (simp add: example_scope_def)

lemma example_scope_handles: "v_handle ` set (variables example_scope) = {3, 5, 9, 12, 20}"
  by (auto simp: example_scope_def)

lemma example_state_scope_ctx:
  "scopes example_state (ctx_scope \<lparr>ctx_scope = 0, ctx_msg = m\<rparr>) = Some example_scope"
  by (simp add: example_state_def)

theorem expr_eval_cases_witness:
  "expr_eval example_layer example_context example_state 12 = Inr (example_state, None)
   \<and> expr_eval example_layer example_context example_state 40 = Inr (example_state, None)
   \<and> (\<exists>st'. expr_eval example_layer example_context example_state 30 = Inr (st', Some 4)
          \<and> objs st' 4 = Some \<lparr>obj_ref_cnt = 2, modified_in_place = False, obj_data = Bytes ''y'' 0\<rparr>
          \<and> scopes st' 0 = Some (example_scope\<lparr>variables :=
               [\<lparr>v_handle = 3, v_floating = False, v_assigned = False, v_value = Some 0\<rparr>,
                \<lparr>v_handle = 5, v_floating = True, v_assigned = True, v_value = Some 1\<rparr>,
                \<lparr>v_handle = 9, v_floating = False, v_assigned = True, v_value = Some 2\<rparr>,
                \<lparr>v_handle = 12, v_floating = False, v_assigned = False, v_value = None\<rparr>,
                \<lparr>v_handle = 20, v_floating = False, v_assigned = False, v_value = Some 3\<rparr>,
                \<lparr>v_handle = 30, v_floating = False, v_assigned = False, v_value = Some 4\<rparr>]\<rparr>)
          \<and> filterx_scope_lookup_variable st' 0 30 = Inr (Some (0, 5)))
   \<and> (\<exists>st'. expr_eval example_layer \<lparr>ctx_scope = 0, ctx_msg = \<lparr>nv = [7 \<mapsto> (''mid'', 1)], msg_ops = []\<rparr>\<rparr> example_state 7 = Inr (st', Some 4)
          \<and> objs st' 4 = Some \<lparr>obj_ref_cnt = 2, modified_in_place = False, obj_data = Bytes ''mid'' 1\<rparr>
          \<and> scopes st' 0 = Some (example_scope\<lparr>variables :=
               [\<lparr>v_handle = 3, v_floating = False, v_assigned = False, v_value = Some 0\<rparr>,
                \<lparr>v_handle = 5, v_floating = True, v_assigned = True, v_value = Some 1\<rparr>,
                \<lparr>v_handle = 7, v_floating = False, v_assigned = False, v_value = Some 4\<rparr>,
                \<lparr>v_handle = 9, v_floating = False, v_assigned = True, v_value = Some 2\<rparr>,
                \<lparr>v_handle = 12, v_floating = False, v_assigned = False, v_value = None\<rparr>,
                \<lparr>v_handle = 20, v_floating = False, v_assigned = False, v_value = Some 3\<rparr>]\<rparr>)
          \<and> filterx_scope_lookup_variable st' 0 7 = Inr (Some (0, 2)))"
proof -
  note ev = expr_eval_cases[OF example_context_scope example_scope_sorted example_scope_length,
      where V = example_layer]
  have small: "length (variables example_scope) < 2 ^ 30" by (simp add: example_scope_def)
  have "3 < length (variables example_scope) \<and> v_handle (variables example_scope ! 3) = 12"
    and "v_value (variables example_scope ! 3) = None"
    by (simp_all add: example_scope_def)
  with ev[of 12] have a: "expr_eval example_layer example_context example_state 12 = Inr (example_state, None)"
    by blast
  have "40 \<notin> v_handle ` set (variables example_scope)
        \<and> log_msg_get_value_if_set_with_type (ctx_msg example_context) 40 = None"
    by (simp add: example_scope_handles log_msg_get_value_if_set_with_type_def example_context_def example_message_def)
  with ev[of 40] have b: "expr_eval example_layer example_context example_state 40 = Inr (example_state, None)"
    by blast
  have c: "\<exists>st'. expr_eval example_layer example_context example_state 30 = Inr (st', Some 4)
          \<and> objs st' 4 = Some \<lparr>obj_ref_cnt = 2, modified_in_place = False, obj_data = Bytes ''y'' 0\<rparr>
          \<and> scopes st' 0 = Some (example_scope\<lparr>variables :=
               [\<lparr>v_handle = 3, v_floating = False, v_assigned = False, v_value = Some 0\<rparr>,
                \<lparr>v_handle = 5, v_floating = True, v_assigned = True, v_value = Some 1\<rparr>,
                \<lparr>v_handle = 9, v_floating = False, v_assigned = True, v_value = Some 2\<rparr>,
                \<lparr>v_handle = 12, v_floating = False, v_assigned = False, v_value = None\<rparr>,
                \<lparr>v_handle = 20, v_floating = False, v_assigned = False, v_value = Some 3\<rparr>,
                \<lparr>v_handle = 30, v_floating = False, v_assigned = False, v_value = Some 4\<rparr>]\<rparr>)
          \<and> filterx_scope_lookup_variable st' 0 30 = Inr (Some (0, 5))"
  proof -
    have h: "30 \<notin> v_handle ` set (variables example_scope)
        \<and> log_msg_get_value_if_set_with_type (ctx_msg example_context) 30 = Some (''y'', 0)"
      by (simp add: example_scope_handles log_msg_get_value_if_set_with_type_def example_context_def example_message_def)
    from expr_eval_cases[OF example_context_scope example_scope_sorted example_scope_length,
        where V = example_layer and hnd = 30,
        THEN conjunct2, THEN conjunct2, THEN spec, THEN spec, THEN mp, OF h]
    obtain k where k1: "k \<le> length (variables example_scope)"
      and k2: "\<forall>j<k. v_handle (variables example_scope ! j) < 30"
      and k3: "\<forall>j. k \<le> j \<and> j < length (variables example_scope) \<longrightarrow> 30 < v_handle (variables example_scope ! j)"
      and e: "expr_eval example_layer example_context example_state 30
       = Inr (example_state\<lparr>objs := (objs example_state)(next_obj example_state \<mapsto>
                             \<lparr>obj_ref_cnt = 2, modified_in_place = False,
                              obj_data = message_value example_layer ''y'' 0\<rparr>),
                           next_obj := next_obj example_state + 1,
                           scopes := (scopes example_state)(ctx_scope example_context \<mapsto>
                             example_scope\<lparr>variables := take k (variables example_scope)
                                 @ \<lparr>v_handle = 30, v_floating = False, v_assigned = False,
                                  v_value = Some (next_obj example_state)\<rparr>
                                 # drop k (variables example_scope)\<rparr>)\<rparr>,
                        Some (next_obj example_state))"
      and l: "length (variables example_scope) < 2 ^ 30 \<longrightarrow>
                  bind_r (expr_eval example_layer example_context example_state 30)
                    (\<lambda>(st', _). filterx_scope_lookup_variable st' (ctx_scope example_context) 30)
                  = Inr (Some (ctx_scope example_context, k))"
      by (elim exE conjE) (rule that; assumption)
    have "\<not> k \<le> 4"
    proof
      assume "k \<le> 4"
      with k3[THEN spec, of 4] show False by (simp add: example_scope_def)
    qed
    with k1 have k: "k = 5" by (simp add: example_scope_def)
    define st' where "st' = example_state\<lparr>objs := (objs example_state)(next_obj example_state \<mapsto>
                             \<lparr>obj_ref_cnt = 2, modified_in_place = False,
                              obj_data = message_value example_layer ''y'' 0\<rparr>),
                           next_obj := next_obj example_state + 1,
                           scopes := (scopes example_state)(ctx_scope example_context \<mapsto>
                             example_scope\<lparr>variables := take k (variables example_scope)
                                 @ \<lparr>v_handle = 30, v_floating = False, v_assigned = False,
                                  v_value = Some (next_obj example_state)\<rparr>
                                 # drop k (variables example_scope)\<rparr>)\<rparr>"
    have r1: "expr_eval example_layer example_context example_state 30 = Inr (st', Some 4)"
      using e by (simp add: st'_def example_state_def)
    have r2: "objs st' 4 = Some \<lparr>obj_ref_cnt = 2, modified_in_place = False, obj_data = Bytes ''y'' 0\<rparr>"
      by (simp add: st'_def example_state_def example_layer_def)
    have r3: "scopes st' 0 = Some (example_scope\<lparr>variables :=
               [\<lparr>v_handle = 3, v_floating = False, v_assigned = False, v_value = Some 0\<rparr>,
                \<lparr>v_handle = 5, v_floating = True, v_assigned = True, v_value = Some 1\<rparr>,
                \<lparr>v_handle = 9, v_floating = False, v_assigned = True, v_value = Some 2\<rparr>,
                \<lparr>v_handle = 12, v_floating = False, v_assigned = False, v_value = None\<rparr>,
                \<lparr>v_handle = 20, v_floating = False, v_assigned = False, v_value = Some 3\<rparr>,
                \<lparr>v_handle = 30, v_floating = False, v_assigned = False, v_value = Some 4\<rparr>]\<rparr>)"
      by (simp add: st'_def k example_state_def example_scope_def example_context_def example_message_def)
    have r4: "filterx_scope_lookup_variable st' 0 30 = Inr (Some (0, 5))"
      using l[THEN mp, OF small] r1 by (simp add: k example_context_def example_message_def)
    from r1 r2 r3 r4 show ?thesis by blast
  qed

  have d: "\<exists>st'. expr_eval example_layer \<lparr>ctx_scope = 0, ctx_msg = \<lparr>nv = [7 \<mapsto> (''mid'', 1)], msg_ops = []\<rparr>\<rparr> example_state 7 = Inr (st', Some 4)
          \<and> objs st' 4 = Some \<lparr>obj_ref_cnt = 2, modified_in_place = False, obj_data = Bytes ''mid'' 1\<rparr>
          \<and> scopes st' 0 = Some (example_scope\<lparr>variables :=
               [\<lparr>v_handle = 3, v_floating = False, v_assigned = False, v_value = Some 0\<rparr>,
                \<lparr>v_handle = 5, v_floating = True, v_assigned = True, v_value = Some 1\<rparr>,
                \<lparr>v_handle = 7, v_floating = False, v_assigned = False, v_value = Some 4\<rparr>,
                \<lparr>v_handle = 9, v_floating = False, v_assigned = True, v_value = Some 2\<rparr>,
                \<lparr>v_handle = 12, v_floating = False, v_assigned = False, v_value = None\<rparr>,
                \<lparr>v_handle = 20, v_floating = False, v_assigned = False, v_value = Some 3\<rparr>]\<rparr>)
          \<and> filterx_scope_lookup_variable st' 0 7 = Inr (Some (0, 2))"
  proof -
    have h: "7 \<notin> v_handle ` set (variables example_scope)
        \<and> log_msg_get_value_if_set_with_type (ctx_msg \<lparr>ctx_scope = 0, ctx_msg = \<lparr>nv = [7 \<mapsto> (''mid'', 1)], msg_ops = []\<rparr>\<rparr>) 7 = Some (''mid'', 1)"
      by (simp add: example_scope_handles log_msg_get_value_if_set_with_type_def)
    from expr_eval_cases[OF example_state_scope_ctx example_scope_sorted example_scope_length,
        where V = example_layer and hnd = 7,
        THEN conjunct2, THEN conjunct2, THEN spec, THEN spec, THEN mp, OF h]
    obtain k where k1: "k \<le> length (variables example_scope)"
      and k2: "\<forall>j<k. v_handle (variables example_scope ! j) < 7"
      and k3: "\<forall>j. k \<le> j \<and> j < length (variables example_scope) \<longrightarrow> 7 < v_handle (variables example_scope ! j)"
      and e: "expr_eval example_layer \<lparr>ctx_scope = 0, ctx_msg = \<lparr>nv = [7 \<mapsto> (''mid'', 1)], msg_ops = []\<rparr>\<rparr> example_state 7
       = Inr (example_state\<lparr>objs := (objs example_state)(next_obj example_state \<mapsto>
                             \<lparr>obj_ref_cnt = 2, modified_in_place = False,
                              obj_data = message_value example_layer ''mid'' 1\<rparr>),
                           next_obj := next_obj example_state + 1,
                           scopes := (scopes example_state)(ctx_scope \<lparr>ctx_scope = 0, ctx_msg = \<lparr>nv = [7 \<mapsto> (''mid'', 1)], msg_ops = []\<rparr>\<rparr> \<mapsto>
                             example_scope\<lparr>variables := take k (variables example_scope)
                                 @ \<lparr>v_handle = 7, v_floating = False, v_assigned = False,
                                  v_value = Some (next_obj example_state)\<rparr>
                                 # drop k (variables example_scope)\<rparr>)\<rparr>,
                        Some (next_obj example_state))"
      and l: "length (variables example_scope) < 2 ^ 30 \<longrightarrow>
                  bind_r (expr_eval example_layer \<lparr>ctx_scope = 0, ctx_msg = \<lparr>nv = [7 \<mapsto> (''mid'', 1)], msg_ops = []\<rparr>\<rparr> example_state 7)
                    (\<lambda>(st', _). filterx_scope_lookup_variable st' (ctx_scope \<lparr>ctx_scope = 0, ctx_msg = \<lparr>nv = [7 \<mapsto> (''mid'', 1)], msg_ops = []\<rparr>\<rparr>) 7)
                  = Inr (Some (ctx_scope \<lparr>ctx_scope = 0, ctx_msg = \<lparr>nv = [7 \<mapsto> (''mid'', 1)], msg_ops = []\<rparr>\<rparr>, k))"
      by (elim exE conjE) (rule that; assumption)
    have "\<not> k \<le> 1"
    proof
      assume "k \<le> 1"
      with k3[THEN spec, of 1] show False by (simp add: example_scope_def)
    qed
    moreover have "\<not> 2 < k"
    proof
      assume "2 < k"
      with k2[THEN spec, of 2] show False by (simp add: example_scope_def)
    qed
    ultimately have k: "k = 2" by simp
    define st' where "st' = example_state\<lparr>objs := (objs example_state)(next_obj example_state \<mapsto>
                             \<lparr>obj_ref_cnt = 2, modified_in_place = False,
                              obj_data = message_value example_layer ''mid'' 1\<rparr>),
                           next_obj := next_obj example_state + 1,
                           scopes := (scopes example_state)(ctx_scope \<lparr>ctx_scope = 0, ctx_msg = \<lparr>nv = [7 \<mapsto> (''mid'', 1)], msg_ops = []\<rparr>\<rparr> \<mapsto>
                             example_scope\<lparr>variables := take k (variables example_scope)
                                 @ \<lparr>v_handle = 7, v_floating = False, v_assigned = False,
                                  v_value = Some (next_obj example_state)\<rparr>
                                 # drop k (variables example_scope)\<rparr>)\<rparr>"
    have r1: "expr_eval example_layer \<lparr>ctx_scope = 0, ctx_msg = \<lparr>nv = [7 \<mapsto> (''mid'', 1)], msg_ops = []\<rparr>\<rparr> example_state 7 = Inr (st', Some 4)"
      using e by (simp add: st'_def example_state_def)
    have r2: "objs st' 4 = Some \<lparr>obj_ref_cnt = 2, modified_in_place = False, obj_data = Bytes ''mid'' 1\<rparr>"
      by (simp add: st'_def example_state_def example_layer_def)
    have r3: "scopes st' 0 = Some (example_scope\<lparr>variables :=
               [\<lparr>v_handle = 3, v_floating = False, v_assigned = False, v_value = Some 0\<rparr>,
                \<lparr>v_handle = 5, v_floating = True, v_assigned = True, v_value = Some 1\<rparr>,
                \<lparr>v_handle = 7, v_floating = False, v_assigned = False, v_value = Some 4\<rparr>,
                \<lparr>v_handle = 9, v_floating = False, v_assigned = True, v_value = Some 2\<rparr>,
                \<lparr>v_handle = 12, v_floating = False, v_assigned = False, v_value = None\<rparr>,
                \<lparr>v_handle = 20, v_floating = False, v_assigned = False, v_value = Some 3\<rparr>]\<rparr>)"
      by (simp add: st'_def k example_state_def example_scope_def)
    have r4: "filterx_scope_lookup_variable st' 0 7 = Inr (Some (0, 2))"
      using l[THEN mp, OF small] r1 by (simp add: k)
    from r1 r2 r3 r4 show ?thesis by blast
  qed

  show ?thesis
    apply (intro conjI)
       apply (rule a)
      apply (rule b)
     apply (rule c)
    apply (rule d)
    done
qed

subsection \<open>Clearing through the message reference\<close>

text \<open>
  C5: clearing through the message reference, on a scope whose table is strictly sorted
  and whose values are live, always returns \<^verbatim>\<open>TRUE\<close>.  The message is only an
  input of the function (it is asked whether the field is set), so no case changes it.
  If the scope has a variable for the handle, \<^verbatim>\<open>filterx_variable_unset_value\<close> is
  applied to it: its value is released, the slot holds no value and is assigned.  If it
  has none and the message has the field set, a variable that is not floating, not
  assigned and has no value is registered at the sorted position, and nothing else
  changes: the new table is the old one with the whiteout between the first \<open>k\<close>
  variables and the rest, a lookup of the handle afterwards finds it in slot \<open>k\<close>, and
  \<^verbatim>\<open>_isset\<close>, which returned \<^verbatim>\<open>TRUE\<close> before, returns \<^verbatim>\<open>FALSE\<close> after.  If it has
  none and the message does not have the field set, the store is unchanged.
\<close>

theorem expr_unset_cases:
  assumes "scopes st (ctx_scope context) = Some s" and "strictly_sorted (variables s)"
    and "length (variables s) \<le> 2 ^ 30"
    and "\<forall>v\<in>set (variables s). \<forall>r. v_value v = Some r \<longrightarrow> objs st r \<noteq> None"
  shows "(\<exists>st'. expr_unset context st hnd = Inr (st', True))
       \<and> (\<forall>i. i < length (variables s) \<and> v_handle (variables s ! i) = hnd \<longrightarrow>
            expr_unset context st hnd
              = bind_r (filterx_variable_unset_value st (ctx_scope context, i)) (\<lambda>st1. Inr (st1, True))
          \<and> (\<exists>st1. filterx_object_unref st (v_value (variables s ! i)) = Inr st1
                \<and> expr_unset context st hnd
                    = Inr (st1\<lparr>scopes := (scopes st)(ctx_scope context \<mapsto>
                             s\<lparr>variables := (variables s)[i := (variables s ! i)
                                    \<lparr>v_value := None, v_assigned := True\<rparr>]\<rparr>)\<rparr>,
                           True)))
       \<and> (hnd \<notin> v_handle ` set (variables s) \<and> log_msg_is_value_set (ctx_msg context) hnd \<longrightarrow>
            (\<exists>k\<le>length (variables s).
               (\<forall>j<k. v_handle (variables s ! j) < hnd)
             \<and> (\<forall>j. k \<le> j \<and> j < length (variables s) \<longrightarrow> hnd < v_handle (variables s ! j))
             \<and> expr_unset context st hnd
                 = Inr (st\<lparr>scopes := (scopes st)(ctx_scope context \<mapsto>
                          s\<lparr>variables := take k (variables s)
                              @ \<lparr>v_handle = hnd, v_floating = False, v_assigned = False,
                                 v_value = None\<rparr>
                              # drop k (variables s)\<rparr>)\<rparr>,
                        True)
             \<and> expr_isset context st hnd = Inr True
             \<and> (length (variables s) < 2 ^ 30 \<longrightarrow>
                  bind_r (expr_unset context st hnd)
                    (\<lambda>(st', _). filterx_scope_lookup_variable st' (ctx_scope context) hnd)
                    = Inr (Some (ctx_scope context, k))
                \<and> bind_r (expr_unset context st hnd) (\<lambda>(st', _). expr_isset context st' hnd)
                    = Inr False)))
       \<and> (hnd \<notin> v_handle ` set (variables s) \<and> \<not> log_msg_is_value_set (ctx_msg context) hnd \<longrightarrow>
            expr_unset context st hnd = Inr (st, True))"
proof -
  have present: "expr_unset context st hnd
              = bind_r (filterx_variable_unset_value st (ctx_scope context, i)) (\<lambda>st1. Inr (st1, True))
          \<and> (\<exists>st1. filterx_object_unref st (v_value (variables s ! i)) = Inr st1
                \<and> expr_unset context st hnd
                    = Inr (st1\<lparr>scopes := (scopes st)(ctx_scope context \<mapsto>
                             s\<lparr>variables := (variables s)[i := (variables s ! i)
                                    \<lparr>v_value := None, v_assigned := True\<rparr>]\<rparr>)\<rparr>,
                           True))"
    if i: "i < length (variables s) \<and> v_handle (variables s ! i) = hnd" for i
  proof -
    have look: "filterx_scope_lookup_variable st (ctx_scope context) hnd
                  = Inr (Some (ctx_scope context, i))"
      using lookup_present[OF assms(1-3)] i by simp
    have eq: "expr_unset context st hnd
              = bind_r (filterx_variable_unset_value st (ctx_scope context, i)) (\<lambda>st1. Inr (st1, True))"
      using look by (simp add: expr_unset_def)
    have "variables s ! i \<in> set (variables s)" using i by simp
    with assms(4) have "v_value (variables s ! i) = None
        \<or> (\<exists>r. v_value (variables s ! i) = Some r \<and> objs st r \<noteq> None)"
      by (cases "v_value (variables s ! i)") auto
    from filterx_object_unref_total[OF this] obtain st1 where
      un: "filterx_object_unref st (v_value (variables s ! i)) = Inr st1" by blast
    have "filterx_object_ref st1 None = Inr (st1, None)" by simp
    from set_value_effect[OF assms(1) i[THEN conjunct1] un this]
    have "filterx_variable_unset_value st (ctx_scope context, i)
            = Inr (st1\<lparr>scopes := (scopes st)(ctx_scope context \<mapsto>
                     s\<lparr>variables := (variables s)[i := (variables s ! i)
                            \<lparr>v_value := None, v_assigned := True\<rparr>]\<rparr>)\<rparr>)"
      by (simp add: filterx_variable_unset_value_def)
    with eq un show ?thesis by simp
  qed
  have whiteout: "\<exists>k\<le>length (variables s).
               (\<forall>j<k. v_handle (variables s ! j) < hnd)
             \<and> (\<forall>j. k \<le> j \<and> j < length (variables s) \<longrightarrow> hnd < v_handle (variables s ! j))
             \<and> expr_unset context st hnd
                 = Inr (st\<lparr>scopes := (scopes st)(ctx_scope context \<mapsto>
                          s\<lparr>variables := take k (variables s)
                              @ \<lparr>v_handle = hnd, v_floating = False, v_assigned = False,
                                 v_value = None\<rparr>
                              # drop k (variables s)\<rparr>)\<rparr>,
                        True)
             \<and> expr_isset context st hnd = Inr True
             \<and> (length (variables s) < 2 ^ 30 \<longrightarrow>
                  bind_r (expr_unset context st hnd)
                    (\<lambda>(st', _). filterx_scope_lookup_variable st' (ctx_scope context) hnd)
                    = Inr (Some (ctx_scope context, k))
                \<and> bind_r (expr_unset context st hnd) (\<lambda>(st', _). expr_isset context st' hnd)
                    = Inr False)"
    if a: "hnd \<notin> v_handle ` set (variables s) \<and> log_msg_is_value_set (ctx_msg context) hnd"
  proof -
    have look: "filterx_scope_lookup_variable st (ctx_scope context) hnd = Inr None"
      using lookup_missing[OF assms(1-3)] a by simp
    have "filterx_object_ref st None = Inr (st, None)" by simp
    from register_missing[OF assms(1-3) a[THEN conjunct1] this, of False] obtain k where
      k: "k \<le> length (variables s)" "\<forall>j<k. v_handle (variables s ! j) < hnd"
         "\<forall>j. k \<le> j \<and> j < length (variables s) \<longrightarrow> hnd < v_handle (variables s ! j)"
         "filterx_scope_register_variable st (ctx_scope context) hnd False None
           = Inr (st\<lparr>scopes := (scopes st)(ctx_scope context \<mapsto>
                          s\<lparr>variables := g_array_insert_val (variables s) k
                              \<lparr>v_handle = hnd, v_floating = False, v_assigned = False,
                               v_value = None\<rparr>\<rparr>)\<rparr>,
                  (ctx_scope context, k))"
         "strictly_sorted (g_array_insert_val (variables s) k
                              \<lparr>v_handle = hnd, v_floating = False, v_assigned = False,
                               v_value = None\<rparr>)"
      by (elim exE conjE) (rule that; assumption)
    define v where "v = \<lparr>v_handle = hnd, v_floating = False, v_assigned = False,
                               v_value = (None :: obj_ref option)\<rparr>"
    define s' where "s' = s\<lparr>variables := take k (variables s) @ v # drop k (variables s)\<rparr>"
    define st' where "st' = st\<lparr>scopes := (scopes st)(ctx_scope context \<mapsto> s')\<rparr>"
    have tab: "g_array_insert_val (variables s) k v = take k (variables s) @ v # drop k (variables s)"
      by (simp add: g_array_insert_val_def)
    have un: "expr_unset context st hnd = Inr (st', True)"
      using look a k(4) by (simp add: expr_unset_def whiteout_variable_def st'_def s'_def tab[unfolded v_def] v_def)
    have before: "expr_isset context st hnd = Inr True"
      using look a by (simp add: expr_isset_def)
    have after: "bind_r (expr_unset context st hnd)
                    (\<lambda>(st', _). filterx_scope_lookup_variable st' (ctx_scope context) hnd)
                    = Inr (Some (ctx_scope context, k))
                \<and> bind_r (expr_unset context st hnd) (\<lambda>(st', _). expr_isset context st' hnd)
                    = Inr False"
      if small: "length (variables s) < 2 ^ 30"
    proof -
      have sc': "scopes st' (ctx_scope context) = Some s'" by (simp add: st'_def)
      have so: "strictly_sorted (variables s')" using k(5) by (simp add: s'_def tab[unfolded v_def] v_def)
      have ln: "length (variables s') \<le> 2 ^ 30" using small k(1) by (simp add: s'_def)
      have kl: "k < length (variables s')" using k(1) by (simp add: s'_def)
      have hk: "v_handle (variables s' ! k) = hnd" using k(1) by (simp add: s'_def nth_append v_def)
      have vk: "v_value (variables s' ! k) = None" using k(1) by (simp add: s'_def nth_append v_def)
      note lk = lookup_present[OF sc' so ln kl hk]
      have "expr_isset context st' hnd = Inr False"
        using lk sc' kl vk
        by (simp add: expr_isset_def filterx_variable_is_set_def read_variable_Some)
      with lk un show ?thesis by simp
    qed
    show ?thesis
      apply (rule exI[of _ k])
      apply (intro conjI)
           apply (rule k(1))
          apply (rule k(2))
         apply (rule k(3))
        apply (rule un[unfolded st'_def s'_def v_def])
       apply (rule before)
      apply (rule impI)
      apply (erule after)
      done
  qed
  have untouched: "expr_unset context st hnd = Inr (st, True)"
    if a: "hnd \<notin> v_handle ` set (variables s) \<and> \<not> log_msg_is_value_set (ctx_msg context) hnd"
  proof -
    have look: "filterx_scope_lookup_variable st (ctx_scope context) hnd = Inr None"
      using lookup_missing[OF assms(1-3)] a by simp
    then show ?thesis using a by (simp add: expr_unset_def)
  qed
  have total: "\<exists>st'. expr_unset context st hnd = Inr (st', True)"
  proof (cases "hnd \<in> v_handle ` set (variables s)")
    case True
    then obtain i where "i < length (variables s) \<and> v_handle (variables s ! i) = hnd"
      by (auto simp: in_set_conv_nth)
    from present[OF this] show ?thesis by blast
  next
    case False
    show ?thesis
    proof (cases "log_msg_is_value_set (ctx_msg context) hnd")
      case True
      with False have "hnd \<notin> v_handle ` set (variables s) \<and> log_msg_is_value_set (ctx_msg context) hnd"
        by simp
      from whiteout[OF this] show ?thesis by blast
    next
      case False
      with \<open>hnd \<notin> v_handle ` set (variables s)\<close>
      have "hnd \<notin> v_handle ` set (variables s) \<and> \<not> log_msg_is_value_set (ctx_msg context) hnd"
        by simp
      from untouched[OF this] show ?thesis by simp
    qed
  qed
  from total present whiteout untouched show ?thesis by blast
qed

theorem expr_unset_cases_witness:
  "expr_unset example_context example_state 40 = Inr (example_state, True)
   \<and> (\<exists>st'. expr_unset example_context example_state 3 = Inr (st', True)
          \<and> objs st' 0 = None
          \<and> scopes st' 0 = Some (example_scope\<lparr>variables :=
               [\<lparr>v_handle = 3, v_floating = False, v_assigned = True, v_value = None\<rparr>,
                \<lparr>v_handle = 5, v_floating = True, v_assigned = True, v_value = Some 1\<rparr>,
                \<lparr>v_handle = 9, v_floating = False, v_assigned = True, v_value = Some 2\<rparr>,
                \<lparr>v_handle = 12, v_floating = False, v_assigned = False, v_value = None\<rparr>,
                \<lparr>v_handle = 20, v_floating = False, v_assigned = False, v_value = Some 3\<rparr>]\<rparr>)
          \<and> expr_isset example_context st' 3 = Inr False)
   \<and> expr_isset example_context example_state 30 = Inr True
      \<and> (\<exists>st'. expr_unset example_context example_state 30 = Inr (st', True)
          \<and> objs st' = objs example_state
          \<and> scopes st' 0 = Some (example_scope\<lparr>variables :=
               [\<lparr>v_handle = 3, v_floating = False, v_assigned = False, v_value = Some 0\<rparr>,
                \<lparr>v_handle = 5, v_floating = True, v_assigned = True, v_value = Some 1\<rparr>,
                \<lparr>v_handle = 9, v_floating = False, v_assigned = True, v_value = Some 2\<rparr>,
                \<lparr>v_handle = 12, v_floating = False, v_assigned = False, v_value = None\<rparr>,
                \<lparr>v_handle = 20, v_floating = False, v_assigned = False, v_value = Some 3\<rparr>,
                \<lparr>v_handle = 30, v_floating = False, v_assigned = False, v_value = None\<rparr>]\<rparr>)
          \<and> filterx_scope_lookup_variable st' 0 30 = Inr (Some (0, 5))
          \<and> expr_isset example_context st' 30 = Inr False)
   \<and> expr_isset \<lparr>ctx_scope = 0, ctx_msg = \<lparr>nv = [7 \<mapsto> (''mid'', 1)], msg_ops = []\<rparr>\<rparr> example_state 7 = Inr True
      \<and> (\<exists>st'. expr_unset \<lparr>ctx_scope = 0, ctx_msg = \<lparr>nv = [7 \<mapsto> (''mid'', 1)], msg_ops = []\<rparr>\<rparr> example_state 7 = Inr (st', True)
          \<and> objs st' = objs example_state
          \<and> scopes st' 0 = Some (example_scope\<lparr>variables :=
               [\<lparr>v_handle = 3, v_floating = False, v_assigned = False, v_value = Some 0\<rparr>,
                \<lparr>v_handle = 5, v_floating = True, v_assigned = True, v_value = Some 1\<rparr>,
                \<lparr>v_handle = 7, v_floating = False, v_assigned = False, v_value = None\<rparr>,
                \<lparr>v_handle = 9, v_floating = False, v_assigned = True, v_value = Some 2\<rparr>,
                \<lparr>v_handle = 12, v_floating = False, v_assigned = False, v_value = None\<rparr>,
                \<lparr>v_handle = 20, v_floating = False, v_assigned = False, v_value = Some 3\<rparr>]\<rparr>)
          \<and> filterx_scope_lookup_variable st' 0 7 = Inr (Some (0, 2))
          \<and> expr_isset \<lparr>ctx_scope = 0, ctx_msg = \<lparr>nv = [7 \<mapsto> (''mid'', 1)], msg_ops = []\<rparr>\<rparr> st' 7 = Inr False)"
proof -
  have live: "\<forall>v\<in>set (variables example_scope). \<forall>r. v_value v = Some r \<longrightarrow> objs example_state r \<noteq> None"
    by (simp add: example_scope_def example_state_def)
  have small: "length (variables example_scope) < 2 ^ 30" by (simp add: example_scope_def)
  note un = expr_unset_cases[OF example_context_scope example_scope_sorted example_scope_length live]
  have "40 \<notin> v_handle ` set (variables example_scope)
        \<and> \<not> log_msg_is_value_set (ctx_msg example_context) 40"
    by (simp add: example_scope_handles log_msg_is_value_set_def example_context_def example_message_def)
  from un[of 40, THEN conjunct2, THEN conjunct2, THEN conjunct2, THEN mp, OF this]
  have a: "expr_unset example_context example_state 40 = Inr (example_state, True)" .
  have b: "\<exists>st'. expr_unset example_context example_state 3 = Inr (st', True)
          \<and> objs st' 0 = None
          \<and> scopes st' 0 = Some (example_scope\<lparr>variables :=
               [\<lparr>v_handle = 3, v_floating = False, v_assigned = True, v_value = None\<rparr>,
                \<lparr>v_handle = 5, v_floating = True, v_assigned = True, v_value = Some 1\<rparr>,
                \<lparr>v_handle = 9, v_floating = False, v_assigned = True, v_value = Some 2\<rparr>,
                \<lparr>v_handle = 12, v_floating = False, v_assigned = False, v_value = None\<rparr>,
                \<lparr>v_handle = 20, v_floating = False, v_assigned = False, v_value = Some 3\<rparr>]\<rparr>)
          \<and> expr_isset example_context st' 3 = Inr False"
  proof -
    have p: "0 < length (variables example_scope) \<and> v_handle (variables example_scope ! 0) = 3"
      by (simp add: example_scope_def)
    from un[of 3, THEN conjunct2, THEN conjunct1, THEN spec, THEN mp, OF p, THEN conjunct2]
    obtain st1 where u: "filterx_object_unref example_state (v_value (variables example_scope ! 0)) = Inr st1"
      and e: "expr_unset example_context example_state 3
                    = Inr (st1\<lparr>scopes := (scopes example_state)(ctx_scope example_context \<mapsto>
                             example_scope\<lparr>variables := (variables example_scope)[0 := (variables example_scope ! 0)
                                    \<lparr>v_value := None, v_assigned := True\<rparr>]\<rparr>)\<rparr>,
                           True)"
      by blast
    from u have st1: "st1 = example_state\<lparr>objs := (objs example_state)(0 := None)\<rparr>"
      by (simp add: filterx_object_unref_def example_scope_def example_state_def)
    define st' where "st' = st1\<lparr>scopes := (scopes example_state)(ctx_scope example_context \<mapsto>
                             example_scope\<lparr>variables := (variables example_scope)[0 := (variables example_scope ! 0)
                                    \<lparr>v_value := None, v_assigned := True\<rparr>]\<rparr>)\<rparr>"
    have r1: "expr_unset example_context example_state 3 = Inr (st', True)"
      using e by (simp add: st'_def)
    have r2: "objs st' 0 = None" by (simp add: st'_def st1)
    have r3: "scopes st' 0 = Some (example_scope\<lparr>variables :=
               [\<lparr>v_handle = 3, v_floating = False, v_assigned = True, v_value = None\<rparr>,
                \<lparr>v_handle = 5, v_floating = True, v_assigned = True, v_value = Some 1\<rparr>,
                \<lparr>v_handle = 9, v_floating = False, v_assigned = True, v_value = Some 2\<rparr>,
                \<lparr>v_handle = 12, v_floating = False, v_assigned = False, v_value = None\<rparr>,
                \<lparr>v_handle = 20, v_floating = False, v_assigned = False, v_value = Some 3\<rparr>]\<rparr>)"
      by (simp add: st'_def example_scope_def example_context_def)
    have so: "strictly_sorted (variables (example_scope\<lparr>variables :=
               [\<lparr>v_handle = 3, v_floating = False, v_assigned = True, v_value = None\<rparr>,
                \<lparr>v_handle = 5, v_floating = True, v_assigned = True, v_value = Some 1\<rparr>,
                \<lparr>v_handle = 9, v_floating = False, v_assigned = True, v_value = Some 2\<rparr>,
                \<lparr>v_handle = 12, v_floating = False, v_assigned = False, v_value = None\<rparr>,
                \<lparr>v_handle = 20, v_floating = False, v_assigned = False, v_value = Some 3\<rparr>]\<rparr>))"
      by (simp add: strictly_sorted_def)
    have r4: "expr_isset example_context st' 3 = Inr False"
      using lookup_present[OF r3 so, of 0 3] r3
      by (simp add: expr_isset_def filterx_variable_is_set_def read_variable_def example_context_def)
    from r1 r2 r3 r4 show ?thesis by blast
  qed
  have c: "expr_isset example_context example_state 30 = Inr True
      \<and> (\<exists>st'. expr_unset example_context example_state 30 = Inr (st', True)
          \<and> objs st' = objs example_state
          \<and> scopes st' 0 = Some (example_scope\<lparr>variables :=
               [\<lparr>v_handle = 3, v_floating = False, v_assigned = False, v_value = Some 0\<rparr>,
                \<lparr>v_handle = 5, v_floating = True, v_assigned = True, v_value = Some 1\<rparr>,
                \<lparr>v_handle = 9, v_floating = False, v_assigned = True, v_value = Some 2\<rparr>,
                \<lparr>v_handle = 12, v_floating = False, v_assigned = False, v_value = None\<rparr>,
                \<lparr>v_handle = 20, v_floating = False, v_assigned = False, v_value = Some 3\<rparr>,
                \<lparr>v_handle = 30, v_floating = False, v_assigned = False, v_value = None\<rparr>]\<rparr>)
          \<and> filterx_scope_lookup_variable st' 0 30 = Inr (Some (0, 5))
          \<and> expr_isset example_context st' 30 = Inr False)"
  proof -
    have h: "30 \<notin> v_handle ` set (variables example_scope) \<and> log_msg_is_value_set (ctx_msg example_context) 30"
      by (simp add: example_scope_handles log_msg_is_value_set_def example_context_def example_message_def)
    from expr_unset_cases[OF example_context_scope example_scope_sorted example_scope_length live,
        where hnd = 30, THEN conjunct2, THEN conjunct2, THEN conjunct1, THEN mp, OF h]
    obtain k where k1: "k \<le> length (variables example_scope)"
      and k2: "\<forall>j<k. v_handle (variables example_scope ! j) < 30"
      and k3: "\<forall>j. k \<le> j \<and> j < length (variables example_scope) \<longrightarrow> 30 < v_handle (variables example_scope ! j)"
      and e: "expr_unset example_context example_state 30
                 = Inr (example_state\<lparr>scopes := (scopes example_state)(ctx_scope example_context \<mapsto>
                          example_scope\<lparr>variables := take k (variables example_scope)
                              @ \<lparr>v_handle = 30, v_floating = False, v_assigned = False,
                                 v_value = None\<rparr>
                              # drop k (variables example_scope)\<rparr>)\<rparr>,
                        True)"
      and bf: "expr_isset example_context example_state 30 = Inr True"
      and l: "length (variables example_scope) < 2 ^ 30 \<longrightarrow>
                  bind_r (expr_unset example_context example_state 30)
                    (\<lambda>(st', _). filterx_scope_lookup_variable st' (ctx_scope example_context) 30)
                    = Inr (Some (ctx_scope example_context, k))
                \<and> bind_r (expr_unset example_context example_state 30) (\<lambda>(st', _). expr_isset example_context st' 30)
                    = Inr False"
      by (elim exE conjE) (rule that; assumption)
    have "\<not> k \<le> 4"
    proof
      assume "k \<le> 4"
      with k3[THEN spec, of 4] show False by (simp add: example_scope_def)
    qed
    with k1 have k: "k = 5" by (simp add: example_scope_def)
    define st' where "st' = example_state\<lparr>scopes := (scopes example_state)(ctx_scope example_context \<mapsto>
                          example_scope\<lparr>variables := take k (variables example_scope)
                              @ \<lparr>v_handle = 30, v_floating = False, v_assigned = False,
                                 v_value = None\<rparr>
                              # drop k (variables example_scope)\<rparr>)\<rparr>"
    have r1: "expr_unset example_context example_state 30 = Inr (st', True)"
      using e by (simp add: st'_def)
    have r2: "objs st' = objs example_state" by (simp add: st'_def)
    have r3: "scopes st' 0 = Some (example_scope\<lparr>variables :=
               [\<lparr>v_handle = 3, v_floating = False, v_assigned = False, v_value = Some 0\<rparr>,
                \<lparr>v_handle = 5, v_floating = True, v_assigned = True, v_value = Some 1\<rparr>,
                \<lparr>v_handle = 9, v_floating = False, v_assigned = True, v_value = Some 2\<rparr>,
                \<lparr>v_handle = 12, v_floating = False, v_assigned = False, v_value = None\<rparr>,
                \<lparr>v_handle = 20, v_floating = False, v_assigned = False, v_value = Some 3\<rparr>,
                \<lparr>v_handle = 30, v_floating = False, v_assigned = False, v_value = None\<rparr>]\<rparr>)"
      by (simp add: st'_def k example_scope_def example_context_def example_message_def)
    have r4: "filterx_scope_lookup_variable st' 0 30 = Inr (Some (0, 5))"
      using l[THEN mp, OF small, THEN conjunct1] r1 by (simp add: k example_context_def example_message_def)
    have r5: "expr_isset example_context st' 30 = Inr False"
      using l[THEN mp, OF small, THEN conjunct2] r1 by simp
    from bf r1 r2 r3 r4 r5 show ?thesis by blast
  qed

  have d: "expr_isset \<lparr>ctx_scope = 0, ctx_msg = \<lparr>nv = [7 \<mapsto> (''mid'', 1)], msg_ops = []\<rparr>\<rparr> example_state 7 = Inr True
      \<and> (\<exists>st'. expr_unset \<lparr>ctx_scope = 0, ctx_msg = \<lparr>nv = [7 \<mapsto> (''mid'', 1)], msg_ops = []\<rparr>\<rparr> example_state 7 = Inr (st', True)
          \<and> objs st' = objs example_state
          \<and> scopes st' 0 = Some (example_scope\<lparr>variables :=
               [\<lparr>v_handle = 3, v_floating = False, v_assigned = False, v_value = Some 0\<rparr>,
                \<lparr>v_handle = 5, v_floating = True, v_assigned = True, v_value = Some 1\<rparr>,
                \<lparr>v_handle = 7, v_floating = False, v_assigned = False, v_value = None\<rparr>,
                \<lparr>v_handle = 9, v_floating = False, v_assigned = True, v_value = Some 2\<rparr>,
                \<lparr>v_handle = 12, v_floating = False, v_assigned = False, v_value = None\<rparr>,
                \<lparr>v_handle = 20, v_floating = False, v_assigned = False, v_value = Some 3\<rparr>]\<rparr>)
          \<and> filterx_scope_lookup_variable st' 0 7 = Inr (Some (0, 2))
          \<and> expr_isset \<lparr>ctx_scope = 0, ctx_msg = \<lparr>nv = [7 \<mapsto> (''mid'', 1)], msg_ops = []\<rparr>\<rparr> st' 7 = Inr False)"
  proof -
    have h: "7 \<notin> v_handle ` set (variables example_scope) \<and> log_msg_is_value_set (ctx_msg \<lparr>ctx_scope = 0, ctx_msg = \<lparr>nv = [7 \<mapsto> (''mid'', 1)], msg_ops = []\<rparr>\<rparr>) 7"
      by (simp add: example_scope_handles log_msg_is_value_set_def)
    from expr_unset_cases[OF example_state_scope_ctx example_scope_sorted example_scope_length live,
        where hnd = 7, THEN conjunct2, THEN conjunct2, THEN conjunct1, THEN mp, OF h]
    obtain k where k1: "k \<le> length (variables example_scope)"
      and k2: "\<forall>j<k. v_handle (variables example_scope ! j) < 7"
      and k3: "\<forall>j. k \<le> j \<and> j < length (variables example_scope) \<longrightarrow> 7 < v_handle (variables example_scope ! j)"
      and e: "expr_unset \<lparr>ctx_scope = 0, ctx_msg = \<lparr>nv = [7 \<mapsto> (''mid'', 1)], msg_ops = []\<rparr>\<rparr> example_state 7
                 = Inr (example_state\<lparr>scopes := (scopes example_state)(ctx_scope \<lparr>ctx_scope = 0, ctx_msg = \<lparr>nv = [7 \<mapsto> (''mid'', 1)], msg_ops = []\<rparr>\<rparr> \<mapsto>
                          example_scope\<lparr>variables := take k (variables example_scope)
                              @ \<lparr>v_handle = 7, v_floating = False, v_assigned = False,
                                 v_value = None\<rparr>
                              # drop k (variables example_scope)\<rparr>)\<rparr>,
                        True)"
      and bf: "expr_isset \<lparr>ctx_scope = 0, ctx_msg = \<lparr>nv = [7 \<mapsto> (''mid'', 1)], msg_ops = []\<rparr>\<rparr> example_state 7 = Inr True"
      and l: "length (variables example_scope) < 2 ^ 30 \<longrightarrow>
                  bind_r (expr_unset \<lparr>ctx_scope = 0, ctx_msg = \<lparr>nv = [7 \<mapsto> (''mid'', 1)], msg_ops = []\<rparr>\<rparr> example_state 7)
                    (\<lambda>(st', _). filterx_scope_lookup_variable st' (ctx_scope \<lparr>ctx_scope = 0, ctx_msg = \<lparr>nv = [7 \<mapsto> (''mid'', 1)], msg_ops = []\<rparr>\<rparr>) 7)
                    = Inr (Some (ctx_scope \<lparr>ctx_scope = 0, ctx_msg = \<lparr>nv = [7 \<mapsto> (''mid'', 1)], msg_ops = []\<rparr>\<rparr>, k))
                \<and> bind_r (expr_unset \<lparr>ctx_scope = 0, ctx_msg = \<lparr>nv = [7 \<mapsto> (''mid'', 1)], msg_ops = []\<rparr>\<rparr> example_state 7) (\<lambda>(st', _). expr_isset \<lparr>ctx_scope = 0, ctx_msg = \<lparr>nv = [7 \<mapsto> (''mid'', 1)], msg_ops = []\<rparr>\<rparr> st' 7)
                    = Inr False"
      by (elim exE conjE) (rule that; assumption)
    have "\<not> k \<le> 1"
    proof
      assume "k \<le> 1"
      with k3[THEN spec, of 1] show False by (simp add: example_scope_def)
    qed
    moreover have "\<not> 2 < k"
    proof
      assume "2 < k"
      with k2[THEN spec, of 2] show False by (simp add: example_scope_def)
    qed
    ultimately have k: "k = 2" by simp
    define st' where "st' = example_state\<lparr>scopes := (scopes example_state)(ctx_scope \<lparr>ctx_scope = 0, ctx_msg = \<lparr>nv = [7 \<mapsto> (''mid'', 1)], msg_ops = []\<rparr>\<rparr> \<mapsto>
                          example_scope\<lparr>variables := take k (variables example_scope)
                              @ \<lparr>v_handle = 7, v_floating = False, v_assigned = False,
                                 v_value = None\<rparr>
                              # drop k (variables example_scope)\<rparr>)\<rparr>"
    have r1: "expr_unset \<lparr>ctx_scope = 0, ctx_msg = \<lparr>nv = [7 \<mapsto> (''mid'', 1)], msg_ops = []\<rparr>\<rparr> example_state 7 = Inr (st', True)"
      using e by (simp add: st'_def)
    have r2: "objs st' = objs example_state" by (simp add: st'_def)
    have r3: "scopes st' 0 = Some (example_scope\<lparr>variables :=
               [\<lparr>v_handle = 3, v_floating = False, v_assigned = False, v_value = Some 0\<rparr>,
                \<lparr>v_handle = 5, v_floating = True, v_assigned = True, v_value = Some 1\<rparr>,
                \<lparr>v_handle = 7, v_floating = False, v_assigned = False, v_value = None\<rparr>,
                \<lparr>v_handle = 9, v_floating = False, v_assigned = True, v_value = Some 2\<rparr>,
                \<lparr>v_handle = 12, v_floating = False, v_assigned = False, v_value = None\<rparr>,
                \<lparr>v_handle = 20, v_floating = False, v_assigned = False, v_value = Some 3\<rparr>]\<rparr>)"
      by (simp add: st'_def k example_scope_def)
    have r4: "filterx_scope_lookup_variable st' 0 7 = Inr (Some (0, 2))"
      using l[THEN mp, OF small, THEN conjunct1] r1 by (simp add: k)
    have r5: "expr_isset \<lparr>ctx_scope = 0, ctx_msg = \<lparr>nv = [7 \<mapsto> (''mid'', 1)], msg_ops = []\<rparr>\<rparr> st' 7 = Inr False"
      using l[THEN mp, OF small, THEN conjunct2] r1 by simp
    from bf r1 r2 r3 r4 r5 show ?thesis by blast
  qed

  show ?thesis
    apply (intro conjI)
         apply (rule a)
        apply (rule b)
       apply (rule c[THEN conjunct1])
      apply (rule c[THEN conjunct2])
     apply (rule d[THEN conjunct1])
    apply (rule d[THEN conjunct2])
    done
qed

subsection \<open>Writing through the message reference\<close>

lemma assign_tail_absent:
  assumes "scopes st a = Some s" and "p < length (variables s)"
    and "filterx_object_unref st (v_value (variables s ! p)) = Inr st3"
  shows "bind_r (filterx_object_clone V st None) (\<lambda>(st2, cloned).
         bind_r (filterx_variable_set_value st2 (a, p) cloned) (\<lambda>st3.
         bind_r (filterx_object_unref st3 cloned) (\<lambda>st4. Inr (st4, True))))
       = Inr (st3\<lparr>scopes := (scopes st)(a \<mapsto>
               s\<lparr>variables := (variables s)[p := (variables s ! p)\<lparr>v_value := None, v_assigned := True\<rparr>]\<rparr>)\<rparr>,
              True)"
proof -
  have "filterx_object_ref st3 None = Inr (st3, None)" by simp
  from set_value_effect[OF assms(1,2,3) this]
  show ?thesis by (simp add: filterx_object_clone_def)
qed

lemma assign_tail_mutable:
  assumes "scopes st a = Some s" and "p < length (variables s)"
    and "v_value (variables s ! p) = None \<or> (\<exists>r. v_value (variables s ! p) = Some r \<and> objs st r \<noteq> None)"
    and "objs st r = Some ob" and "is_mutable V (obj_data ob)"
    and "objs st (next_obj st) = None"
  shows "\<exists>st4. bind_r (filterx_object_clone V st (Some r)) (\<lambda>(st2, cloned).
         bind_r (filterx_variable_set_value st2 (a, p) cloned) (\<lambda>st3.
         bind_r (filterx_object_unref st3 cloned) (\<lambda>st4. Inr (st4, True))))
       = Inr (st4, True)
     \<and> scopes st4 = (scopes st)(a \<mapsto>
               s\<lparr>variables := (variables s)[p := (variables s ! p)
                      \<lparr>v_value := Some (next_obj st), v_assigned := True\<rparr>]\<rparr>)
     \<and> next_scope st4 = next_scope st
     \<and> objs st4 (next_obj st) = Some ((type_clone V ob)\<lparr>obj_ref_cnt := 1\<rparr>)"
proof -
  define n where "n = next_obj st"
  define cl where "cl = (type_clone V ob)\<lparr>obj_ref_cnt := 1\<rparr>"
  define st2 where "st2 = st\<lparr>objs := (objs st)(n \<mapsto> cl), next_obj := n + 1\<rparr>"
  have clone: "filterx_object_clone V st (Some r) = Inr (st2, Some n)"
    using assms(4,5) by (simp add: filterx_object_clone_def alloc_object_def st2_def n_def cl_def)
  have sc2: "scopes st2 a = Some s" using assms(1) by (simp add: st2_def)
  have old: "v_value (variables s ! p) = None
             \<or> (\<exists>r. v_value (variables s ! p) = Some r \<and> objs st2 r \<noteq> None)"
    using assms(3) by (auto simp: st2_def)
  from filterx_object_unref_total[OF old] obtain st3 where
    un: "filterx_object_unref st2 (v_value (variables s ! p)) = Inr st3" by blast
  have neq: "v_value (variables s ! p) \<noteq> Some n"
    using assms(3,6) by (auto simp: n_def)
  have o3: "objs st3 n = Some cl"
    using un neq
    by (auto simp: filterx_object_unref_def st2_def split: option.splits if_splits)
  have n3: "next_scope st3 = next_scope st" "scopes st3 = scopes st"
    using filterx_object_unref_InrD[OF un] by (simp_all add: st2_def)
  define st3' where "st3' = st3\<lparr>objs := (objs st3)(n \<mapsto> cl\<lparr>obj_ref_cnt := obj_ref_cnt cl + 1\<rparr>)\<rparr>"
  have ref: "filterx_object_ref st3 (Some n) = Inr (st3', Some n)"
    using o3 by (simp add: filterx_object_ref_Some st3'_def)
  define st4 where "st4 = st3'\<lparr>scopes := (scopes st2)(a \<mapsto>
               s\<lparr>variables := (variables s)[p := (variables s ! p)\<lparr>v_value := Some n, v_assigned := True\<rparr>]\<rparr>)\<rparr>"
  have sv: "filterx_variable_set_value st2 (a, p) (Some n) = Inr st4"
    using set_value_effect[OF sc2 assms(2) un ref] by (simp add: st4_def)
  define st5 where "st5 = st4\<lparr>objs := (objs st4)(n \<mapsto> cl)\<rparr>"
  have un2: "filterx_object_unref st4 (Some n) = Inr st5"
    by (simp add: filterx_object_unref_def st4_def st3'_def st5_def cl_def)
  have "bind_r (filterx_object_clone V st (Some r)) (\<lambda>(st2, cloned).
         bind_r (filterx_variable_set_value st2 (a, p) cloned) (\<lambda>st3.
         bind_r (filterx_object_unref st3 cloned) (\<lambda>st4. Inr (st4, True))))
       = Inr (st5, True)"
    using clone sv un2 by simp
  moreover have "scopes st5 = (scopes st)(a \<mapsto>
               s\<lparr>variables := (variables s)[p := (variables s ! p)
                      \<lparr>v_value := Some (next_obj st), v_assigned := True\<rparr>]\<rparr>)"
    by (simp add: st5_def st4_def st2_def n_def)
  moreover have "next_scope st5 = next_scope st"
    using n3 by (simp add: st5_def st4_def st3'_def)
  moreover have "objs st5 (next_obj st) = Some ((type_clone V ob)\<lparr>obj_ref_cnt := 1\<rparr>)"
    by (simp add: st5_def n_def cl_def)
  ultimately show ?thesis by blast
qed

lemma assign_tail_immutable:
  assumes "scopes st a = Some s" and "p < length (variables s)"
    and "v_value (variables s ! p) = None \<or> (\<exists>r. v_value (variables s ! p) = Some r \<and> objs st r \<noteq> None)"
    and "objs st r = Some ob" and "\<not> is_mutable V (obj_data ob)" and "1 \<le> obj_ref_cnt ob"
  shows "\<exists>st4. bind_r (filterx_object_clone V st (Some r)) (\<lambda>(st2, cloned).
         bind_r (filterx_variable_set_value st2 (a, p) cloned) (\<lambda>st3.
         bind_r (filterx_object_unref st3 cloned) (\<lambda>st4. Inr (st4, True))))
       = Inr (st4, True)
     \<and> scopes st4 = (scopes st)(a \<mapsto>
               s\<lparr>variables := (variables s)[p := (variables s ! p)
                      \<lparr>v_value := Some r, v_assigned := True\<rparr>]\<rparr>)
     \<and> next_scope st4 = next_scope st
     \<and> objs st4 r = Some (ob\<lparr>obj_ref_cnt :=
           obj_ref_cnt ob + (if v_value (variables s ! p) = Some r then 0 else 1)\<rparr>)"
proof -
  define ob2 where "ob2 = ob\<lparr>obj_ref_cnt := obj_ref_cnt ob + 1\<rparr>"
  define st2 where "st2 = st\<lparr>objs := (objs st)(r \<mapsto> ob2)\<rparr>"
  have clone: "filterx_object_clone V st (Some r) = Inr (st2, Some r)"
    using assms(4,5) by (simp add: filterx_object_clone_def filterx_object_ref_def st2_def ob2_def)
  have sc2: "scopes st2 a = Some s" using assms(1) by (simp add: st2_def)
  have old: "v_value (variables s ! p) = None
             \<or> (\<exists>r. v_value (variables s ! p) = Some r \<and> objs st2 r \<noteq> None)"
    using assms(3) by (auto simp: st2_def)
  from filterx_object_unref_total[OF old] obtain st3 where
    un: "filterx_object_unref st2 (v_value (variables s ! p)) = Inr st3" by blast
  define k :: int where "k = (if v_value (variables s ! p) = Some r then 0 else 1)"
  have o3: "objs st3 r = Some (ob\<lparr>obj_ref_cnt := obj_ref_cnt ob + k\<rparr>)"
    using un assms(6)
    by (auto simp: filterx_object_unref_def st2_def ob2_def k_def split: option.splits if_splits)
  have n3: "next_scope st3 = next_scope st" "scopes st3 = scopes st"
    using filterx_object_unref_InrD[OF un] by (simp_all add: st2_def)
  define st3' where "st3' = st3\<lparr>objs := (objs st3)(r \<mapsto> ob\<lparr>obj_ref_cnt := obj_ref_cnt ob + k + 1\<rparr>)\<rparr>"
  have ref: "filterx_object_ref st3 (Some r) = Inr (st3', Some r)"
    using o3 by (simp add: filterx_object_ref_Some st3'_def)
  define st4 where "st4 = st3'\<lparr>scopes := (scopes st2)(a \<mapsto>
               s\<lparr>variables := (variables s)[p := (variables s ! p)\<lparr>v_value := Some r, v_assigned := True\<rparr>]\<rparr>)\<rparr>"
  have sv: "filterx_variable_set_value st2 (a, p) (Some r) = Inr st4"
    using set_value_effect[OF sc2 assms(2) un ref] by (simp add: st4_def)
  define st5 where "st5 = st4\<lparr>objs := (objs st4)(r \<mapsto> ob\<lparr>obj_ref_cnt := obj_ref_cnt ob + k\<rparr>)\<rparr>"
  have kk: "obj_ref_cnt ob + k \<noteq> 0" using assms(6) by (simp add: k_def)
  have un2: "filterx_object_unref st4 (Some r) = Inr st5"
    using kk by (simp add: filterx_object_unref_def st4_def st3'_def st5_def)
  have "bind_r (filterx_object_clone V st (Some r)) (\<lambda>(st2, cloned).
         bind_r (filterx_variable_set_value st2 (a, p) cloned) (\<lambda>st3.
         bind_r (filterx_object_unref st3 cloned) (\<lambda>st4. Inr (st4, True))))
       = Inr (st5, True)"
    using clone sv un2 by simp
  moreover have "scopes st5 = (scopes st)(a \<mapsto>
               s\<lparr>variables := (variables s)[p := (variables s ! p)
                      \<lparr>v_value := Some r, v_assigned := True\<rparr>]\<rparr>)"
    by (simp add: st5_def st4_def st2_def)
  moreover have "next_scope st5 = next_scope st"
    using n3 by (simp add: st5_def st4_def st3'_def)
  moreover have "objs st5 r = Some (ob\<lparr>obj_ref_cnt :=
           obj_ref_cnt ob + (if v_value (variables s ! p) = Some r then 0 else 1)\<rparr>)"
    by (simp add: st5_def k_def)
  ultimately show ?thesis by blast
qed

lemma assign_tail_cases:
  assumes "scopes st a = Some s" and "p < length (variables s)"
    and "v_value (variables s ! p) = None \<or> (\<exists>r. v_value (variables s ! p) = Some r \<and> objs st r \<noteq> None)"
    and "objs st (next_obj st) = None"
    and "new_value = None \<or> (\<exists>r ob. new_value = Some r \<and> objs st r = Some ob \<and> 1 \<le> obj_ref_cnt ob)"
  shows "\<exists>st4 cloned.
       bind_r (filterx_object_clone V st new_value) (\<lambda>(st2, cloned).
         bind_r (filterx_variable_set_value st2 (a, p) cloned) (\<lambda>st3.
         bind_r (filterx_object_unref st3 cloned) (\<lambda>st4. Inr (st4, True))))
       = Inr (st4, True)
     \<and> scopes st4 = (scopes st)(a \<mapsto>
               s\<lparr>variables := (variables s)[p := (variables s ! p)
                      \<lparr>v_value := cloned, v_assigned := True\<rparr>]\<rparr>)
     \<and> next_scope st4 = next_scope st
     \<and> (new_value = None \<longrightarrow> cloned = None)
     \<and> (\<forall>r ob. new_value = Some r \<and> objs st r = Some ob \<and> is_mutable V (obj_data ob) \<longrightarrow>
            cloned = Some (next_obj st)
          \<and> objs st4 (next_obj st) = Some ((type_clone V ob)\<lparr>obj_ref_cnt := 1\<rparr>))
     \<and> (\<forall>r ob. new_value = Some r \<and> objs st r = Some ob \<and> \<not> is_mutable V (obj_data ob) \<longrightarrow>
            cloned = Some r
          \<and> objs st4 r = Some (ob\<lparr>obj_ref_cnt :=
               obj_ref_cnt ob + (if v_value (variables s ! p) = Some r then 0 else 1)\<rparr>))"
proof (cases new_value)
  case None
  from filterx_object_unref_total[OF assms(3)] obtain st3 where
    un: "filterx_object_unref st (v_value (variables s ! p)) = Inr st3" by blast
  have "next_scope st3 = next_scope st" using filterx_object_unref_InrD[OF un] by simp
  with assign_tail_absent[OF assms(1,2) un, of V] None show ?thesis
    by (intro exI[of _ "st3\<lparr>scopes := (scopes st)(a \<mapsto>
               s\<lparr>variables := (variables s)[p := (variables s ! p)\<lparr>v_value := None, v_assigned := True\<rparr>]\<rparr>)\<rparr>"]
        exI[of _ None]) simp
next
  case (Some r)
  with assms(5) obtain ob where ob: "objs st r = Some ob" "1 \<le> obj_ref_cnt ob" by auto
  show ?thesis
  proof (cases "is_mutable V (obj_data ob)")
    case True
    from assign_tail_mutable[OF assms(1,2,3) ob(1) True assms(4)] obtain st4 where
      "bind_r (filterx_object_clone V st (Some r)) (\<lambda>(st2, cloned).
         bind_r (filterx_variable_set_value st2 (a, p) cloned) (\<lambda>st3.
         bind_r (filterx_object_unref st3 cloned) (\<lambda>st4. Inr (st4, True))))
       = Inr (st4, True)"
      "scopes st4 = (scopes st)(a \<mapsto>
               s\<lparr>variables := (variables s)[p := (variables s ! p)
                      \<lparr>v_value := Some (next_obj st), v_assigned := True\<rparr>]\<rparr>)"
      "next_scope st4 = next_scope st"
      "objs st4 (next_obj st) = Some ((type_clone V ob)\<lparr>obj_ref_cnt := 1\<rparr>)"
      by blast
    with Some ob True show ?thesis
      by (intro exI[of _ st4] exI[of _ "Some (next_obj st)"]) simp
  next
    case False
    from assign_tail_immutable[OF assms(1,2,3) ob(1) False ob(2)] obtain st4 where
      "bind_r (filterx_object_clone V st (Some r)) (\<lambda>(st2, cloned).
         bind_r (filterx_variable_set_value st2 (a, p) cloned) (\<lambda>st3.
         bind_r (filterx_object_unref st3 cloned) (\<lambda>st4. Inr (st4, True))))
       = Inr (st4, True)"
      "scopes st4 = (scopes st)(a \<mapsto>
               s\<lparr>variables := (variables s)[p := (variables s ! p)
                      \<lparr>v_value := Some r, v_assigned := True\<rparr>]\<rparr>)"
      "next_scope st4 = next_scope st"
      "objs st4 r = Some (ob\<lparr>obj_ref_cnt :=
           obj_ref_cnt ob + (if v_value (variables s ! p) = Some r then 0 else 1)\<rparr>)"
      by blast
    with Some ob False show ?thesis
      by (intro exI[of _ st4] exI[of _ "Some r"]) simp
  qed
qed

lemma expr_assign_result:
  assumes "scopes st (ctx_scope context) = Some s" and "strictly_sorted (variables s)"
    and "length (variables s) < 2 ^ 30"
    and "\<forall>v\<in>set (variables s). \<forall>r. v_value v = Some r \<longrightarrow> objs st r \<noteq> None"
    and "objs st (next_obj st) = None"
    and "new_value = None \<or> (\<exists>r ob. new_value = Some r \<and> objs st r = Some ob \<and> 1 \<le> obj_ref_cnt ob)"
  shows "\<exists>st' s1 p cloned.
       expr_assign V context st hnd new_value = Inr (st', True)
     \<and> next_scope st' = next_scope st
     \<and> scopes st' = (scopes st)(ctx_scope context \<mapsto>
           s1\<lparr>variables := (variables s1)[p := (variables s1 ! p)
                  \<lparr>v_value := cloned, v_assigned := True\<rparr>]\<rparr>)
     \<and> p < length (variables s1) \<and> v_handle (variables s1 ! p) = hnd
     \<and> (\<forall>i. i < length (variables s) \<and> v_handle (variables s ! i) = hnd \<longrightarrow> s1 = s \<and> p = i)
     \<and> (hnd \<notin> v_handle ` set (variables s) \<longrightarrow>
          s1 = s\<lparr>variables := g_array_insert_val (variables s) p
                   \<lparr>v_handle = hnd, v_floating = False, v_assigned = False, v_value = None\<rparr>\<rparr>
        \<and> p \<le> length (variables s)
        \<and> (\<forall>j<p. v_handle (variables s ! j) < hnd)
        \<and> (\<forall>j. p \<le> j \<and> j < length (variables s) \<longrightarrow> hnd < v_handle (variables s ! j)))
     \<and> (new_value = None \<longrightarrow> cloned = None)
     \<and> (\<forall>r ob. new_value = Some r \<and> objs st r = Some ob \<and> is_mutable V (obj_data ob) \<longrightarrow>
            cloned = Some (next_obj st)
          \<and> objs st' (next_obj st) = Some ((type_clone V ob)\<lparr>obj_ref_cnt := 1\<rparr>))
     \<and> (\<forall>r ob. new_value = Some r \<and> objs st r = Some ob \<and> \<not> is_mutable V (obj_data ob) \<longrightarrow>
            cloned = Some r
          \<and> objs st' r = Some (ob\<lparr>obj_ref_cnt :=
               obj_ref_cnt ob + (if v_value (variables s1 ! p) = Some r then 0 else 1)\<rparr>))"
proof (cases "hnd \<in> v_handle ` set (variables s)")
  case True
  then obtain i where i: "i < length (variables s)" "v_handle (variables s ! i) = hnd"
    by (auto simp: in_set_conv_nth)
  have le: "length (variables s) \<le> 2 ^ 30" using assms(3) by simp
  have look: "filterx_scope_lookup_variable st (ctx_scope context) hnd
                = Inr (Some (ctx_scope context, i))"
    by (rule lookup_present[OF assms(1,2) le i])
  have "variables s ! i \<in> set (variables s)" using i by simp
  with assms(4) have old: "v_value (variables s ! i) = None
        \<or> (\<exists>r. v_value (variables s ! i) = Some r \<and> objs st r \<noteq> None)"
    by (cases "v_value (variables s ! i)") auto
  from assign_tail_cases[OF assms(1) i(1) old assms(5,6), of V] obtain st4 cloned where
    t: "bind_r (filterx_object_clone V st new_value) (\<lambda>(st2, cloned).
         bind_r (filterx_variable_set_value st2 (ctx_scope context, i) cloned) (\<lambda>st3.
         bind_r (filterx_object_unref st3 cloned) (\<lambda>st4. Inr (st4, True))))
       = Inr (st4, True)"
     "scopes st4 = (scopes st)(ctx_scope context \<mapsto>
               s\<lparr>variables := (variables s)[i := (variables s ! i)
                      \<lparr>v_value := cloned, v_assigned := True\<rparr>]\<rparr>)"
     "next_scope st4 = next_scope st"
     "new_value = None \<longrightarrow> cloned = None"
     "\<forall>r ob. new_value = Some r \<and> objs st r = Some ob \<and> is_mutable V (obj_data ob) \<longrightarrow>
            cloned = Some (next_obj st)
          \<and> objs st4 (next_obj st) = Some ((type_clone V ob)\<lparr>obj_ref_cnt := 1\<rparr>)"
     "\<forall>r ob. new_value = Some r \<and> objs st r = Some ob \<and> \<not> is_mutable V (obj_data ob) \<longrightarrow>
            cloned = Some r
          \<and> objs st4 r = Some (ob\<lparr>obj_ref_cnt :=
               obj_ref_cnt ob + (if v_value (variables s ! i) = Some r then 0 else 1)\<rparr>)"
    by blast
  have run: "expr_assign V context st hnd new_value = Inr (st4, True)"
    using look t(1) by (simp add: expr_assign_def)
  have uniq: "\<forall>j. j < length (variables s) \<and> v_handle (variables s ! j) = hnd \<longrightarrow> s = s \<and> i = j"
    using strictly_sorted_unique[OF assms(2) i(1)] i(2) by auto
  have absurd: "hnd \<notin> v_handle ` set (variables s) \<longrightarrow>
          s = s\<lparr>variables := g_array_insert_val (variables s) i
                   \<lparr>v_handle = hnd, v_floating = False, v_assigned = False, v_value = None\<rparr>\<rparr>
        \<and> i \<le> length (variables s)
        \<and> (\<forall>j<i. v_handle (variables s ! j) < hnd)
        \<and> (\<forall>j. i \<le> j \<and> j < length (variables s) \<longrightarrow> hnd < v_handle (variables s ! j))"
    using True by simp
  show ?thesis
    apply (rule exI[of _ st4], rule exI[of _ s], rule exI[of _ i], rule exI[of _ cloned])
    apply (intro conjI)
            apply (rule run)
           apply (rule t(3))
          apply (rule t(2))
         apply (rule i(1))
        apply (rule i(2))
       apply (rule uniq)
      apply (rule absurd)
     apply (rule t(4))
    apply (rule t(5))
    apply (rule t(6))
    done
next
  case False
  have le: "length (variables s) \<le> 2 ^ 30" using assms(3) by simp
  have look: "filterx_scope_lookup_variable st (ctx_scope context) hnd = Inr None"
    by (rule lookup_missing[OF assms(1,2) le False])
  have "filterx_object_ref st None = Inr (st, None)" by simp
  from register_missing[OF assms(1,2) le False this, of False] obtain k where
    k: "k \<le> length (variables s)" "\<forall>j<k. v_handle (variables s ! j) < hnd"
       "\<forall>j. k \<le> j \<and> j < length (variables s) \<longrightarrow> hnd < v_handle (variables s ! j)"
       "filterx_scope_register_variable st (ctx_scope context) hnd False None
           = Inr (st\<lparr>scopes := (scopes st)(ctx_scope context \<mapsto>
                          s\<lparr>variables := g_array_insert_val (variables s) k
                              \<lparr>v_handle = hnd, v_floating = False, v_assigned = False,
                               v_value = None\<rparr>\<rparr>)\<rparr>,
                  (ctx_scope context, k))"
    by blast
  define s1 where "s1 = s\<lparr>variables := g_array_insert_val (variables s) k
                              \<lparr>v_handle = hnd, v_floating = False, v_assigned = False,
                               v_value = None\<rparr>\<rparr>"
  define st1 where "st1 = st\<lparr>scopes := (scopes st)(ctx_scope context \<mapsto> s1)\<rparr>"
  have sc1: "scopes st1 (ctx_scope context) = Some s1" by (simp add: st1_def)
  have p1: "k < length (variables s1)" using k(1) by (simp add: s1_def)
  have slot: "variables s1 ! k = \<lparr>v_handle = hnd, v_floating = False, v_assigned = False, v_value = None\<rparr>"
    using k(1) by (simp add: s1_def)
  have old: "v_value (variables s1 ! k) = None
        \<or> (\<exists>r. v_value (variables s1 ! k) = Some r \<and> objs st1 r \<noteq> None)"
    by (simp add: slot)
  have free: "objs st1 (next_obj st1) = None" using assms(5) by (simp add: st1_def)
  have new: "new_value = None \<or> (\<exists>r ob. new_value = Some r \<and> objs st1 r = Some ob \<and> 1 \<le> obj_ref_cnt ob)"
    using assms(6) by (simp add: st1_def)
  from assign_tail_cases[OF sc1 p1 old free new, of V] obtain st4 cloned where
    t: "bind_r (filterx_object_clone V st1 new_value) (\<lambda>(st2, cloned).
         bind_r (filterx_variable_set_value st2 (ctx_scope context, k) cloned) (\<lambda>st3.
         bind_r (filterx_object_unref st3 cloned) (\<lambda>st4. Inr (st4, True))))
       = Inr (st4, True)"
     "scopes st4 = (scopes st1)(ctx_scope context \<mapsto>
               s1\<lparr>variables := (variables s1)[k := (variables s1 ! k)
                      \<lparr>v_value := cloned, v_assigned := True\<rparr>]\<rparr>)"
     "next_scope st4 = next_scope st1"
     "new_value = None \<longrightarrow> cloned = None"
     "\<forall>r ob. new_value = Some r \<and> objs st1 r = Some ob \<and> is_mutable V (obj_data ob) \<longrightarrow>
            cloned = Some (next_obj st1)
          \<and> objs st4 (next_obj st1) = Some ((type_clone V ob)\<lparr>obj_ref_cnt := 1\<rparr>)"
     "\<forall>r ob. new_value = Some r \<and> objs st1 r = Some ob \<and> \<not> is_mutable V (obj_data ob) \<longrightarrow>
            cloned = Some r
          \<and> objs st4 r = Some (ob\<lparr>obj_ref_cnt :=
               obj_ref_cnt ob + (if v_value (variables s1 ! k) = Some r then 0 else 1)\<rparr>)"
    by blast
  have run: "expr_assign V context st hnd new_value = Inr (st4, True)"
    using look k(4) t(1) by (simp add: expr_assign_def st1_def s1_def)
  have sc4: "scopes st4 = (scopes st)(ctx_scope context \<mapsto>
               s1\<lparr>variables := (variables s1)[k := (variables s1 ! k)
                      \<lparr>v_value := cloned, v_assigned := True\<rparr>]\<rparr>)"
    using t(2) by (simp add: st1_def)
  have o1: "objs st1 = objs st" "next_obj st1 = next_obj st" by (simp_all add: st1_def)
  have none: "\<forall>i. i < length (variables s) \<and> v_handle (variables s ! i) = hnd \<longrightarrow> s1 = s \<and> k = i"
    using False by (metis imageI nth_mem)
  have t5: "\<forall>r ob. new_value = Some r \<and> objs st r = Some ob \<and> is_mutable V (obj_data ob) \<longrightarrow>
            cloned = Some (next_obj st)
          \<and> objs st4 (next_obj st) = Some ((type_clone V ob)\<lparr>obj_ref_cnt := 1\<rparr>)"
    using t(5) unfolding o1 .
  have t6: "\<forall>r ob. new_value = Some r \<and> objs st r = Some ob \<and> \<not> is_mutable V (obj_data ob) \<longrightarrow>
            cloned = Some r
          \<and> objs st4 r = Some (ob\<lparr>obj_ref_cnt :=
               obj_ref_cnt ob + (if v_value (variables s1 ! k) = Some r then 0 else 1)\<rparr>)"
    using t(6) unfolding o1 .
  have n4: "next_scope st4 = next_scope st" using t(3) by (simp add: st1_def)
  have hk: "v_handle (variables s1 ! k) = hnd" by (simp add: slot)
  show ?thesis
    apply (rule exI[of _ st4], rule exI[of _ s1], rule exI[of _ k], rule exI[of _ cloned])
    apply (intro conjI)
            apply (rule run)
           apply (rule n4)
          apply (rule sc4)
         apply (rule p1)
        apply (rule hk)
       apply (rule none)
      apply (use k(1-3) in \<open>simp add: s1_def\<close>)
     apply (rule t(4))
    apply (rule t5)
    apply (rule t6)
    done
qed

text \<open>
  C4, as the code has it.  \<^verbatim>\<open>_assign\<close> does not call
  \<^verbatim>\<open>filterx_scope_make_writable\<close>: it works on the scope of the evaluation context
  as it is, write protected or not, and no scope is allocated.  On a scope whose table
  is strictly sorted and whose values are live, given a new value that is absent or
  live: if no variable exists for the handle, a slot that is not floating, not assigned
  and has no value is registered at the sorted position; then a clone of the new value
  is stored in the slot by \<^verbatim>\<open>filterx_variable_set_value\<close>, which leaves the slot
  assigned; the extra reference to the clone is released, so that a fresh clone of a
  mutable value ends with the single reference the variable holds and a shared immutable
  value ends with one reference more than before (none more when the slot already held
  it); and \<^verbatim>\<open>TRUE\<close> is returned.
\<close>

theorem expr_assign_cases:
  assumes "scopes st (ctx_scope context) = Some s" and "strictly_sorted (variables s)"
    and "length (variables s) < 2 ^ 30"
    and "\<forall>v\<in>set (variables s). \<forall>r. v_value v = Some r \<longrightarrow> objs st r \<noteq> None"
    and "objs st (next_obj st) = None"
    and "new_value = None \<or> (\<exists>r ob. new_value = Some r \<and> objs st r = Some ob \<and> 1 \<le> obj_ref_cnt ob)"
  shows "\<exists>st' s1 p cloned.
       expr_assign V context st hnd new_value = Inr (st', True)
     \<and> next_scope st' = next_scope st
     \<and> scopes st' = (scopes st)(ctx_scope context \<mapsto>
           s1\<lparr>variables := (variables s1)[p := (variables s1 ! p)
                  \<lparr>v_value := cloned, v_assigned := True\<rparr>]\<rparr>)
     \<and> p < length (variables s1) \<and> v_handle (variables s1 ! p) = hnd
     \<and> (\<forall>i. i < length (variables s) \<and> v_handle (variables s ! i) = hnd \<longrightarrow> s1 = s \<and> p = i)
     \<and> (hnd \<notin> v_handle ` set (variables s) \<longrightarrow>
          s1 = s\<lparr>variables := g_array_insert_val (variables s) p
                   \<lparr>v_handle = hnd, v_floating = False, v_assigned = False, v_value = None\<rparr>\<rparr>
        \<and> p \<le> length (variables s)
        \<and> (\<forall>j<p. v_handle (variables s ! j) < hnd)
        \<and> (\<forall>j. p \<le> j \<and> j < length (variables s) \<longrightarrow> hnd < v_handle (variables s ! j)))
     \<and> (new_value = None \<longrightarrow> cloned = None)
     \<and> (\<forall>r ob. new_value = Some r \<and> objs st r = Some ob \<and> is_mutable V (obj_data ob) \<longrightarrow>
            cloned = Some (next_obj st)
          \<and> objs st' (next_obj st) = Some ((type_clone V ob)\<lparr>obj_ref_cnt := 1\<rparr>))
     \<and> (\<forall>r ob. new_value = Some r \<and> objs st r = Some ob \<and> \<not> is_mutable V (obj_data ob) \<longrightarrow>
            cloned = Some r
          \<and> objs st' r = Some (ob\<lparr>obj_ref_cnt :=
               obj_ref_cnt ob + (if v_value (variables s1 ! p) = Some r then 0 else 1)\<rparr>))"
  by (rule expr_assign_result[OF assms])

theorem expr_assign_cases_witness:
  "\<exists>st'. expr_assign example_layer example_context example_state 40 (Some 0) = Inr (st', True)
      \<and> next_scope st' = 1 \<and> (\<exists>s'. scopes st' 0 = Some s' \<and> length (variables s') = 6)"
proof -
  have len: "length (variables example_scope) < 2 ^ 30" by (simp add: example_scope_def)
  have live: "\<forall>v\<in>set (variables example_scope). \<forall>r. v_value v = Some r \<longrightarrow> objs example_state r \<noteq> None"
    by (simp add: example_scope_def example_state_def)
  have free: "objs example_state (next_obj example_state) = None" by (simp add: example_state_def)
  have new: "Some (0::nat) = None \<or> (\<exists>r ob. Some 0 = Some r \<and> objs example_state r = Some ob \<and> 1 \<le> obj_ref_cnt ob)"
    by (simp add: example_state_def)
  have miss: "40 \<notin> v_handle ` set (variables example_scope)" by (simp add: example_scope_handles)
  from expr_assign_cases[OF example_context_scope example_scope_sorted len live free new,
      of example_layer 40]
  obtain st' s1 p cloned where
    r: "expr_assign example_layer example_context example_state 40 (Some 0) = Inr (st', True)"
       "next_scope st' = next_scope example_state"
       "scopes st' = (scopes example_state)(ctx_scope example_context \<mapsto>
           s1\<lparr>variables := (variables s1)[p := (variables s1 ! p)
                  \<lparr>v_value := cloned, v_assigned := True\<rparr>]\<rparr>)"
       and r4: "40 \<notin> v_handle ` set (variables example_scope) \<longrightarrow>
          s1 = example_scope\<lparr>variables := g_array_insert_val (variables example_scope) p
                   \<lparr>v_handle = 40, v_floating = False, v_assigned = False, v_value = None\<rparr>\<rparr>
        \<and> p \<le> length (variables example_scope)
        \<and> (\<forall>j<p. v_handle (variables example_scope ! j) < 40)
        \<and> (\<forall>j. p \<le> j \<and> j < length (variables example_scope) \<longrightarrow> 40 < v_handle (variables example_scope ! j))"
    by (elim exE conjE) (rule that; assumption)
  from r4[THEN mp, OF miss, THEN conjunct1] have s1: "s1 = example_scope\<lparr>variables := g_array_insert_val (variables example_scope) p
                   \<lparr>v_handle = 40, v_floating = False, v_assigned = False, v_value = None\<rparr>\<rparr>" .
  have "next_scope st' = 1" using r(2) by (simp add: example_state_def)
  moreover have "\<exists>s'. scopes st' 0 = Some s' \<and> length (variables s') = 6"
    using r(3) s1 by (simp add: example_context_def example_scope_def)
  ultimately show ?thesis using r(1) by blast
qed

lemmas clone_run_defs = filterx_scope_make_writable_def filterx_scope_clone_def filterx_scope_new_def
  read_variable_def append_variable_def update_variable_def filterx_object_clone_def
  filterx_object_ref_def alloc_object_def filterx_scope_unref_def gint_max_def

theorem expr_assign_writes_protected_scope:
  "scopes example_state (ctx_scope example_context) = Some example_scope
   \<and> write_protected example_scope \<and> ref_cnt example_scope = 2
   \<and> (\<exists>st' s'. expr_assign example_layer example_context example_state 40 (Some 0) = Inr (st', True)
        \<and> next_scope st' = next_scope example_state \<and> scopes st' 1 = None
        \<and> scopes st' 0 = Some s' \<and> write_protected s' \<and> ref_cnt s' = 2
        \<and> length (variables s') = Suc (length (variables example_scope)))
   \<and> (\<exists>st''. filterx_scope_make_writable example_layer example_state 0 = Inr (st'', 1))"
proof -
  have len: "length (variables example_scope) < 2 ^ 30" by (simp add: example_scope_def)
  have live: "\<forall>v\<in>set (variables example_scope). \<forall>r. v_value v = Some r \<longrightarrow> objs example_state r \<noteq> None"
    by (simp add: example_scope_def example_state_def)
  have free: "objs example_state (next_obj example_state) = None" by (simp add: example_state_def)
  have new: "Some (0::nat) = None \<or> (\<exists>r ob. Some 0 = Some r \<and> objs example_state r = Some ob \<and> 1 \<le> obj_ref_cnt ob)"
    by (simp add: example_state_def)
  have miss: "40 \<notin> v_handle ` set (variables example_scope)" by (simp add: example_scope_handles)
  from expr_assign_result[OF example_context_scope example_scope_sorted len live free new,
      of example_layer 40]
  obtain st' s1 p cloned where
    r: "expr_assign example_layer example_context example_state 40 (Some 0) = Inr (st', True)"
       "next_scope st' = next_scope example_state"
       "scopes st' = (scopes example_state)(ctx_scope example_context \<mapsto>
           s1\<lparr>variables := (variables s1)[p := (variables s1 ! p)
                  \<lparr>v_value := cloned, v_assigned := True\<rparr>]\<rparr>)"
       and r4: "40 \<notin> v_handle ` set (variables example_scope) \<longrightarrow>
          s1 = example_scope\<lparr>variables := g_array_insert_val (variables example_scope) p
                   \<lparr>v_handle = 40, v_floating = False, v_assigned = False, v_value = None\<rparr>\<rparr>
        \<and> p \<le> length (variables example_scope)
        \<and> (\<forall>j<p. v_handle (variables example_scope ! j) < 40)
        \<and> (\<forall>j. p \<le> j \<and> j < length (variables example_scope) \<longrightarrow> 40 < v_handle (variables example_scope ! j))"
    by (elim exE conjE) (rule that; assumption)
  from r4[THEN mp, OF miss, THEN conjunct1] have s1: "s1 = example_scope\<lparr>variables := g_array_insert_val (variables example_scope) p
                   \<lparr>v_handle = 40, v_floating = False, v_assigned = False, v_value = None\<rparr>\<rparr>" .
  define s' where "s' = s1\<lparr>variables := (variables s1)[p := (variables s1 ! p)
                  \<lparr>v_value := cloned, v_assigned := True\<rparr>]\<rparr>"
  have a: "scopes st' 0 = Some s'" "scopes st' 1 = None"
    using r(3) by (simp_all add: s'_def example_context_def example_state_def)
  have b: "write_protected s'" "ref_cnt s' = 2"
    "length (variables s') = Suc (length (variables example_scope))"
    by (simp_all add: s'_def s1 example_scope_def)
  have c: "\<exists>st' s'. expr_assign example_layer example_context example_state 40 (Some 0) = Inr (st', True)
        \<and> next_scope st' = next_scope example_state \<and> scopes st' 1 = None
        \<and> scopes st' 0 = Some s' \<and> write_protected s' \<and> ref_cnt s' = 2
        \<and> length (variables s') = Suc (length (variables example_scope))"
    using r(1,2) a b by blast
  have d: "\<exists>st''. filterx_scope_make_writable example_layer example_state 0 = Inr (st'', 1)"
    by (simp add: clone_run_defs example_defs upt_rec)
  have e: "write_protected example_scope" "ref_cnt example_scope = 2"
    by (simp_all add: example_scope_def)
  from example_context_scope e c d show ?thesis by blast
qed

subsection \<open>The clone loop\<close>

lemma filterx_object_clone_scopes:
  "filterx_object_clone V (st\<lparr>scopes := X\<rparr>) p
     = bind_r (filterx_object_clone V st p) (\<lambda>(st1, c). Inr (st1\<lparr>scopes := X\<rparr>, c))"
  by (auto simp: filterx_object_clone_def filterx_object_ref_def alloc_object_def
      split: option.splits)

lemma filterx_object_clone_InrD:
  assumes "filterx_object_clone V st p = Inr (st1, c)"
  shows "scopes st1 = scopes st" and "next_scope st1 = next_scope st"
  using assms
  by (auto simp: filterx_object_clone_def filterx_object_ref_def alloc_object_def
      split: option.splits if_splits)

lemma clone_values_InrD:
  assumes "clone_values V st ps = Inr (st1, cs)"
  shows "scopes st1 = scopes st \<and> next_scope st1 = next_scope st \<and> length cs = length ps"
  using assms
proof (induction ps arbitrary: st st1 cs)
  case Nil
  then show ?case by simp
next
  case (Cons p ps)
  from Cons.prems obtain st' c st2 cs' where
    a: "filterx_object_clone V st p = Inr (st', c)" "clone_values V st' ps = Inr (st2, cs')"
       "st1 = st2" "cs = c # cs'"
    by (auto simp: bind_r_eq_Inr)
  from Cons.IH[OF a(2)] filterx_object_clone_InrD[OF a(1)] a(3,4) show ?case by simp
qed

lemma clone_values_scopes:
  "clone_values V (st\<lparr>scopes := X\<rparr>) ps
     = bind_r (clone_values V st ps) (\<lambda>(st1, cs). Inr (st1\<lparr>scopes := X\<rparr>, cs))"
proof (induction ps arbitrary: st)
  case Nil
  then show ?case by simp
next
  case (Cons p ps)
  show ?case
  proof (cases "filterx_object_clone V st p")
    case (Inl e)
    then show ?thesis by (simp add: filterx_object_clone_scopes)
  next
    case (Inr x)
    obtain st1 c where x: "x = (st1, c)" by (cases x)
    show ?thesis
      using Inr x Cons.IH[of st1]
      by (cases "clone_values V st1 ps") (auto simp: filterx_object_clone_scopes)
  qed
qed

lemma clone_loop_values:
  assumes "other \<noteq> self" and "scopes st other = Some s" and "scopes st self = Some t"
    and "length (variables t) = k" and "k \<le> length (variables s)"
  shows "clone_loop V other self [k..<length (variables s)] st
         = bind_r (clone_values V st (map v_value (drop k (variables s)))) (\<lambda>(st1, cs).
             Inr (st1\<lparr>scopes := (scopes st)(self \<mapsto>
                    t\<lparr>variables := variables t @ cloned_variables (drop k (variables s)) cs\<rparr>)\<rparr>))"
  using assms
proof (induction "length (variables s) - k" arbitrary: k st t)
  case 0
  then have "k = length (variables s)" by simp
  with 0 show ?case by (simp add: cloned_variables_def fun_upd_idem)
next
  case (Suc d)
  then have k: "k < length (variables s)" by simp
  define v where "v = variables s ! k"
  have up: "[k..<length (variables s)] = k # [Suc k..<length (variables s)]"
    using k by (simp add: upt_conv_Cons)
  have dr: "drop k (variables s) = v # drop (Suc k) (variables s)"
    using k by (simp add: v_def Cons_nth_drop_Suc)
  define t1 where "t1 = t\<lparr>variables := variables t @ [v]\<rparr>"
  define sta where "sta = st\<lparr>scopes := (scopes st)(self \<mapsto> t1)\<rparr>"
  have rd: "read_variable st (other, k) = Inr v"
    using Suc.prems(2) k by (simp add: read_variable_Some v_def)
  have ap: "append_variable st self v = Inr sta"
    using Suc.prems(3) by (simp add: append_variable_def sta_def t1_def)
  show ?case
  proof (cases "filterx_object_clone V st (v_value v)")
    case (Inl e)
    then show ?thesis
      using rd ap by (simp add: up dr sta_def filterx_object_clone_scopes)
  next
    case (Inr x)
    obtain stb c where x: "x = (stb, c)" by (cases x)
    have sb: "scopes stb = scopes st" using filterx_object_clone_InrD[OF Inr[unfolded x]] by simp
    define t2 where "t2 = t\<lparr>variables := variables t @ [v\<lparr>v_value := c\<rparr>]\<rparr>"
    define stc where "stc = stb\<lparr>scopes := (scopes st)(self \<mapsto> t2)\<rparr>"
    have cl: "filterx_object_clone V sta (v_value v) = Inr (stb\<lparr>scopes := (scopes st)(self \<mapsto> t1)\<rparr>, c)"
      using Inr x by (simp add: sta_def filterx_object_clone_scopes)
    have lu: "(variables t @ [v])[k := ((variables t @ [v]) ! k)\<lparr>v_value := c\<rparr>]
                = variables t @ [v\<lparr>v_value := c\<rparr>]"
      using Suc.prems(4) by (simp add: nth_append list_update_append)
    have upd: "update_variable (stb\<lparr>scopes := (scopes st)(self \<mapsto> t1)\<rparr>) (self, k) (\<lambda>w. w\<lparr>v_value := c\<rparr>)
               = Inr stc"
      using Suc.prems(4) lu by (simp add: update_variable_def t1_def stc_def t2_def)
    have step: "clone_loop V other self [k..<length (variables s)] st
                = clone_loop V other self [Suc k..<length (variables s)] stc"
      using rd ap cl upd by (simp add: up)
    have i1: "d = length (variables s) - Suc k" using Suc.hyps(2) by simp
    have i2: "scopes stc other = Some s" using Suc.prems(1,2) by (simp add: stc_def)
    have i3: "scopes stc self = Some t2" by (simp add: stc_def)
    have i4: "length (variables t2) = Suc k" using Suc.prems(4) by (simp add: t2_def)
    have i5: "Suc k \<le> length (variables s)" using k by simp
    note ih = Suc.hyps(1)[OF i1 Suc.prems(1) i2 i3 i4 i5]
    have stc_eq: "stc = stb\<lparr>scopes := (scopes st)(self \<mapsto> t2)\<rparr>" by (simp add: stc_def)
    show ?thesis
      unfolding step ih
      apply (simp add: dr Inr x stc_def clone_values_scopes)
      apply (cases "clone_values V stb (map v_value (drop (Suc k) (variables s)))")
       apply simp
      apply (auto simp: t2_def cloned_variables_def)
      done
  qed
qed

lemma clone_post_Nil:
  assumes "\<forall>r\<ge>next_obj st. objs st r = None"
  shows "clone_post V st [] st []"
  using assms by (auto simp: clone_post_def split: option.splits)

lemma clone_post_None:
  assumes "clone_post V st ps st1 cs"
  shows "clone_post V st (None # ps) st1 (None # cs)"
  unfolding clone_post_def
proof (intro conjI)
  note a = assms[unfolded clone_post_def]
  show "length (None # cs) = length (None # ps)" using a by simp
  show "next_obj st \<le> next_obj st1" using a by simp
  show "\<forall>r\<ge>next_obj st1. objs st1 r = None \<and> count_list (None # cs) (Some r) = 0"
    using a by simp
  show "\<forall>r<next_obj st.
         objs st1 r = map_option (\<lambda>ob. ob\<lparr>obj_ref_cnt := obj_ref_cnt ob + int (count_list (None # cs) (Some r))\<rparr>) (objs st r)
       \<and> count_list (None # cs) (Some r) =
           (case objs st r of
              None \<Rightarrow> 0
            | Some ob \<Rightarrow> if is_mutable V (obj_data ob) then 0 else count_list (None # ps) (Some r))"
    using a by (simp split: option.splits)
  show "\<forall>r. next_obj st \<le> r \<and> r < next_obj st1 \<longrightarrow>
         count_list (None # cs) (Some r) = 1 \<and> (\<exists>ob'. objs st1 r = Some ob' \<and> obj_ref_cnt ob' = 1)"
    using a by simp
  show "\<forall>i<length (None # ps).
         ((None # ps) ! i = None \<longrightarrow> (None # cs) ! i = None)
       \<and> (\<forall>r ob. (None # ps) ! i = Some r \<and> objs st r = Some ob \<longrightarrow>
             (if is_mutable V (obj_data ob)
              then \<exists>c. (None # cs) ! i = Some c \<and> next_obj st \<le> c \<and> c < next_obj st1
                     \<and> objs st1 c = Some ((type_clone V ob)\<lparr>obj_ref_cnt := 1\<rparr>)
              else (None # cs) ! i = Some r))"
  proof (intro allI impI)
    fix i assume "i < length (None # ps)"
    then show "((None # ps) ! i = None \<longrightarrow> (None # cs) ! i = None)
       \<and> (\<forall>r ob. (None # ps) ! i = Some r \<and> objs st r = Some ob \<longrightarrow>
             (if is_mutable V (obj_data ob)
              then \<exists>c. (None # cs) ! i = Some c \<and> next_obj st \<le> c \<and> c < next_obj st1
                     \<and> objs st1 c = Some ((type_clone V ob)\<lparr>obj_ref_cnt := 1\<rparr>)
              else (None # cs) ! i = Some r))"
      using a by (cases i) auto
  qed
qed

lemma clone_post_immutable:
  assumes "objs st r0 = Some ob0" and "\<not> is_mutable V (obj_data ob0)"
    and "\<forall>r\<ge>next_obj st. objs st r = None"
    and "clone_post V (st\<lparr>objs := (objs st)(r0 \<mapsto> ob0\<lparr>obj_ref_cnt := obj_ref_cnt ob0 + 1\<rparr>)\<rparr>) ps st1 cs"
  shows "clone_post V st (Some r0 # ps) st1 (Some r0 # cs)"
  unfolding clone_post_def
proof (intro conjI)
  define st' where "st' = st\<lparr>objs := (objs st)(r0 \<mapsto> ob0\<lparr>obj_ref_cnt := obj_ref_cnt ob0 + 1\<rparr>)\<rparr>"
  note a = assms(4)[folded st'_def, unfolded clone_post_def]
  have n: "next_obj st' = next_obj st" by (simp add: st'_def)
  have r0: "r0 < next_obj st" using assms(1,3) by (metis not_le option.distinct(1))
  have o': "\<And>r. objs st' r = (if r = r0 then Some (ob0\<lparr>obj_ref_cnt := obj_ref_cnt ob0 + 1\<rparr>) else objs st r)"
    by (simp add: st'_def)
  show "length (Some r0 # cs) = length (Some r0 # ps)" using a by simp
  show "next_obj st \<le> next_obj st1" using a n by simp
  show "\<forall>r\<ge>next_obj st1. objs st1 r = None \<and> count_list (Some r0 # cs) (Some r) = 0"
    using a n r0 by auto
  show "\<forall>r<next_obj st.
         objs st1 r = map_option (\<lambda>ob. ob\<lparr>obj_ref_cnt := obj_ref_cnt ob + int (count_list (Some r0 # cs) (Some r))\<rparr>) (objs st r)
       \<and> count_list (Some r0 # cs) (Some r) =
           (case objs st r of
              None \<Rightarrow> 0
            | Some ob \<Rightarrow> if is_mutable V (obj_data ob) then 0 else count_list (Some r0 # ps) (Some r))"
  proof (intro allI impI)
    fix r assume r: "r < next_obj st"
    with a n have b: "objs st1 r = map_option (\<lambda>ob. ob\<lparr>obj_ref_cnt := obj_ref_cnt ob + int (count_list cs (Some r))\<rparr>) (objs st' r)"
      "count_list cs (Some r) =
           (case objs st' r of
              None \<Rightarrow> 0
            | Some ob \<Rightarrow> if is_mutable V (obj_data ob) then 0 else count_list ps (Some r))"
      by auto
    show "objs st1 r = map_option (\<lambda>ob. ob\<lparr>obj_ref_cnt := obj_ref_cnt ob + int (count_list (Some r0 # cs) (Some r))\<rparr>) (objs st r)
       \<and> count_list (Some r0 # cs) (Some r) =
           (case objs st r of
              None \<Rightarrow> 0
            | Some ob \<Rightarrow> if is_mutable V (obj_data ob) then 0 else count_list (Some r0 # ps) (Some r))"
    proof (cases "r = r0")
      case True
      with b assms(1,2) show ?thesis by (simp add: o')
    next
      case False
      with b show ?thesis by (simp add: o' split: option.splits)
    qed
  qed
  show "\<forall>r. next_obj st \<le> r \<and> r < next_obj st1 \<longrightarrow>
         count_list (Some r0 # cs) (Some r) = 1 \<and> (\<exists>ob'. objs st1 r = Some ob' \<and> obj_ref_cnt ob' = 1)"
    using a n r0 by auto
  show "\<forall>i<length (Some r0 # ps).
         ((Some r0 # ps) ! i = None \<longrightarrow> (Some r0 # cs) ! i = None)
       \<and> (\<forall>r ob. (Some r0 # ps) ! i = Some r \<and> objs st r = Some ob \<longrightarrow>
             (if is_mutable V (obj_data ob)
              then \<exists>c. (Some r0 # cs) ! i = Some c \<and> next_obj st \<le> c \<and> c < next_obj st1
                     \<and> objs st1 c = Some ((type_clone V ob)\<lparr>obj_ref_cnt := 1\<rparr>)
              else (Some r0 # cs) ! i = Some r))"
  proof (intro allI impI)
    fix i assume i: "i < length (Some r0 # ps)"
    show "((Some r0 # ps) ! i = None \<longrightarrow> (Some r0 # cs) ! i = None)
       \<and> (\<forall>r ob. (Some r0 # ps) ! i = Some r \<and> objs st r = Some ob \<longrightarrow>
             (if is_mutable V (obj_data ob)
              then \<exists>c. (Some r0 # cs) ! i = Some c \<and> next_obj st \<le> c \<and> c < next_obj st1
                     \<and> objs st1 c = Some ((type_clone V ob)\<lparr>obj_ref_cnt := 1\<rparr>)
              else (Some r0 # cs) ! i = Some r))"
    proof (cases i)
      case 0
      then show ?thesis using assms(1,2) by simp
    next
      case (Suc j)
      with i have j: "j < length ps" by simp
      from a j have c: "(ps ! j = None \<longrightarrow> cs ! j = None)"
        "\<And>r ob. ps ! j = Some r \<Longrightarrow> objs st' r = Some ob \<Longrightarrow>
             (if is_mutable V (obj_data ob)
              then \<exists>c. cs ! j = Some c \<and> next_obj st' \<le> c \<and> c < next_obj st1
                     \<and> objs st1 c = Some ((type_clone V ob)\<lparr>obj_ref_cnt := 1\<rparr>)
              else cs ! j = Some r)"
        by auto
      show ?thesis
      proof (simp only: Suc nth_Cons_Suc, intro conjI allI impI)
        show "ps ! j = None \<Longrightarrow> cs ! j = None" using c(1) by simp
      next
        fix r ob assume h: "ps ! j = Some r \<and> objs st r = Some ob"
        show "if is_mutable V (obj_data ob)
              then \<exists>c. cs ! j = Some c \<and> next_obj st \<le> c \<and> c < next_obj st1
                     \<and> objs st1 c = Some ((type_clone V ob)\<lparr>obj_ref_cnt := 1\<rparr>)
              else cs ! j = Some r"
        proof (cases "r = r0")
          case True
          with h assms(1) have "ob = ob0" by simp
          with c(2)[of r "ob0\<lparr>obj_ref_cnt := obj_ref_cnt ob0 + 1\<rparr>"] h True assms(2)
          show ?thesis by (simp add: o')
        next
          case False
          with c(2)[of r ob] h show ?thesis unfolding n by (simp add: o')
        qed
      qed
    qed
  qed
qed

lemma clone_post_mutable:
  assumes "objs st r0 = Some ob0" and "is_mutable V (obj_data ob0)"
    and "\<forall>r\<ge>next_obj st. objs st r = None"
    and "\<forall>r. Some r \<in> set ps \<longrightarrow> objs st r \<noteq> None"
    and "clone_post V (st\<lparr>objs := (objs st)(next_obj st \<mapsto> (type_clone V ob0)\<lparr>obj_ref_cnt := 1\<rparr>),
                          next_obj := next_obj st + 1\<rparr>) ps st1 cs"
  shows "clone_post V st (Some r0 # ps) st1 (Some (next_obj st) # cs)"
  unfolding clone_post_def
proof (intro conjI)
  define n where "n = next_obj st"
  define cl where "cl = (type_clone V ob0)\<lparr>obj_ref_cnt := 1\<rparr>"
  define st' where "st' = st\<lparr>objs := (objs st)(n \<mapsto> cl), next_obj := n + 1\<rparr>"
  note a = assms(5)[folded n_def cl_def, folded st'_def, unfolded clone_post_def]
  have n': "next_obj st' = Suc n" by (simp add: st'_def)
  have o': "\<And>r. objs st' r = (if r = n then Some cl else objs st r)"
    by (simp add: st'_def)
  have r0: "r0 < n" using assms(1,3) unfolding n_def by (metis not_le option.distinct(1))
  have fresh: "count_list ps (Some n) = 0"
    using assms(3,4) unfolding n_def by (metis count_list_0_iff le_refl)
  have len: "length cs = length ps" and up: "Suc n \<le> next_obj st1"
    and top: "\<forall>r\<ge>next_obj st1. objs st1 r = None \<and> count_list cs (Some r) = 0"
    and old: "\<forall>r<Suc n.
         objs st1 r = map_option (\<lambda>ob. ob\<lparr>obj_ref_cnt := obj_ref_cnt ob + int (count_list cs (Some r))\<rparr>) (objs st' r)
       \<and> count_list cs (Some r) =
           (case objs st' r of
              None \<Rightarrow> 0
            | Some ob \<Rightarrow> if is_mutable V (obj_data ob) then 0 else count_list ps (Some r))"
    and new: "\<forall>r. Suc n \<le> r \<and> r < next_obj st1 \<longrightarrow>
         count_list cs (Some r) = 1 \<and> (\<exists>ob'. objs st1 r = Some ob' \<and> obj_ref_cnt ob' = 1)"
    and pt: "\<forall>i<length ps.
         (ps ! i = None \<longrightarrow> cs ! i = None)
       \<and> (\<forall>r ob. ps ! i = Some r \<and> objs st' r = Some ob \<longrightarrow>
             (if is_mutable V (obj_data ob)
              then \<exists>c. cs ! i = Some c \<and> Suc n \<le> c \<and> c < next_obj st1
                     \<and> objs st1 c = Some ((type_clone V ob)\<lparr>obj_ref_cnt := 1\<rparr>)
              else cs ! i = Some r))"
    using a unfolding n' by blast+
  have cn: "count_list cs (Some n) = 0"
    using old[rule_format, of n] fresh by (simp add: o')
  have on: "objs st1 n = Some cl"
    using old[rule_format, of n] cn by (simp add: o')
  show "length (Some (next_obj st) # cs) = length (Some r0 # ps)" using len by simp
  show "next_obj st \<le> next_obj st1" using up by (simp add: n_def)
  show "\<forall>r\<ge>next_obj st1. objs st1 r = None \<and> count_list (Some (next_obj st) # cs) (Some r) = 0"
    using top up by (auto simp: n_def)
  show "\<forall>r<next_obj st.
         objs st1 r = map_option (\<lambda>ob. ob\<lparr>obj_ref_cnt := obj_ref_cnt ob + int (count_list (Some (next_obj st) # cs) (Some r))\<rparr>) (objs st r)
       \<and> count_list (Some (next_obj st) # cs) (Some r) =
           (case objs st r of
              None \<Rightarrow> 0
            | Some ob \<Rightarrow> if is_mutable V (obj_data ob) then 0 else count_list (Some r0 # ps) (Some r))"
  proof (intro allI impI)
    fix r assume "r < next_obj st"
    then have r: "r < n" by (simp add: n_def)
    then have b: "objs st1 r = map_option (\<lambda>ob. ob\<lparr>obj_ref_cnt := obj_ref_cnt ob + int (count_list cs (Some r))\<rparr>) (objs st r)"
      "count_list cs (Some r) =
           (case objs st r of
              None \<Rightarrow> 0
            | Some ob \<Rightarrow> if is_mutable V (obj_data ob) then 0 else count_list ps (Some r))"
      using old[rule_format, of r] by (simp_all add: o')
    have c: "count_list (Some (next_obj st) # cs) (Some r) = count_list cs (Some r)"
      using r by (simp add: n_def)
    show "objs st1 r = map_option (\<lambda>ob. ob\<lparr>obj_ref_cnt := obj_ref_cnt ob + int (count_list (Some (next_obj st) # cs) (Some r))\<rparr>) (objs st r)
       \<and> count_list (Some (next_obj st) # cs) (Some r) =
           (case objs st r of
              None \<Rightarrow> 0
            | Some ob \<Rightarrow> if is_mutable V (obj_data ob) then 0 else count_list (Some r0 # ps) (Some r))"
      unfolding c using b assms(1,2) by (auto split: option.splits)
  qed
  show "\<forall>r. next_obj st \<le> r \<and> r < next_obj st1 \<longrightarrow>
         count_list (Some (next_obj st) # cs) (Some r) = 1 \<and> (\<exists>ob'. objs st1 r = Some ob' \<and> obj_ref_cnt ob' = 1)"
  proof (intro allI impI)
    fix r assume r: "next_obj st \<le> r \<and> r < next_obj st1"
    show "count_list (Some (next_obj st) # cs) (Some r) = 1 \<and> (\<exists>ob'. objs st1 r = Some ob' \<and> obj_ref_cnt ob' = 1)"
    proof (cases "r = n")
      case True
      then show ?thesis using cn on by (simp add: n_def cl_def)
    next
      case False
      with r have "Suc n \<le> r \<and> r < next_obj st1" by (simp add: n_def)
      with new False show ?thesis by (simp add: n_def)
    qed
  qed
  show "\<forall>i<length (Some r0 # ps).
         ((Some r0 # ps) ! i = None \<longrightarrow> (Some (next_obj st) # cs) ! i = None)
       \<and> (\<forall>r ob. (Some r0 # ps) ! i = Some r \<and> objs st r = Some ob \<longrightarrow>
             (if is_mutable V (obj_data ob)
              then \<exists>c. (Some (next_obj st) # cs) ! i = Some c \<and> next_obj st \<le> c \<and> c < next_obj st1
                     \<and> objs st1 c = Some ((type_clone V ob)\<lparr>obj_ref_cnt := 1\<rparr>)
              else (Some (next_obj st) # cs) ! i = Some r))"
  proof (intro allI impI)
    fix i assume i: "i < length (Some r0 # ps)"
    show "((Some r0 # ps) ! i = None \<longrightarrow> (Some (next_obj st) # cs) ! i = None)
       \<and> (\<forall>r ob. (Some r0 # ps) ! i = Some r \<and> objs st r = Some ob \<longrightarrow>
             (if is_mutable V (obj_data ob)
              then \<exists>c. (Some (next_obj st) # cs) ! i = Some c \<and> next_obj st \<le> c \<and> c < next_obj st1
                     \<and> objs st1 c = Some ((type_clone V ob)\<lparr>obj_ref_cnt := 1\<rparr>)
              else (Some (next_obj st) # cs) ! i = Some r))"
    proof (cases i)
      case 0
      then show ?thesis using assms(1,2) on up by (simp add: n_def cl_def)
    next
      case (Suc j)
      with i have j: "j < length ps" by simp
      show ?thesis
      proof (simp only: Suc nth_Cons_Suc, intro conjI allI impI)
        show "ps ! j = None \<Longrightarrow> cs ! j = None" using pt j by simp
      next
        fix r ob assume h: "ps ! j = Some r \<and> objs st r = Some ob"
        then have "r \<noteq> n" using assms(3) unfolding n_def by (metis le_refl option.distinct(1))
        with h have "objs st' r = Some ob" by (simp add: o')
        with pt[rule_format, OF j] h
        have "if is_mutable V (obj_data ob)
              then \<exists>c. cs ! j = Some c \<and> Suc n \<le> c \<and> c < next_obj st1
                     \<and> objs st1 c = Some ((type_clone V ob)\<lparr>obj_ref_cnt := 1\<rparr>)
              else cs ! j = Some r"
          by blast
        then show "if is_mutable V (obj_data ob)
              then \<exists>c. cs ! j = Some c \<and> next_obj st \<le> c \<and> c < next_obj st1
                     \<and> objs st1 c = Some ((type_clone V ob)\<lparr>obj_ref_cnt := 1\<rparr>)
              else cs ! j = Some r"
          by (auto simp: n_def split: if_splits)
      qed
    qed
  qed
qed

lemma clone_values_effect:
  assumes "\<forall>r\<ge>next_obj st. objs st r = None"
    and "\<forall>r. Some r \<in> set ps \<longrightarrow> objs st r \<noteq> None"
  shows "\<exists>st1 cs. clone_values V st ps = Inr (st1, cs) \<and> clone_post V st ps st1 cs"
  using assms
proof (induction ps arbitrary: st)
  case Nil
  then show ?case by (simp add: clone_post_Nil)
next
  case (Cons p ps)
  show ?case
  proof (cases p)
    case None
    from Cons.IH[OF Cons.prems(1)] Cons.prems(2) obtain st1 cs where
      "clone_values V st ps = Inr (st1, cs)" "clone_post V st ps st1 cs" by auto
    then show ?thesis
      using None clone_post_None[of V st ps st1 cs]
      by (auto simp: filterx_object_clone_def)
  next
    case (Some r0)
    with Cons.prems(2) obtain ob0 where ob0: "objs st r0 = Some ob0" by auto
    show ?thesis
    proof (cases "is_mutable V (obj_data ob0)")
      case True
      define st' where "st' = st\<lparr>objs := (objs st)(next_obj st \<mapsto> (type_clone V ob0)\<lparr>obj_ref_cnt := 1\<rparr>),
                          next_obj := next_obj st + 1\<rparr>"
      have cl: "filterx_object_clone V st p = Inr (st', Some (next_obj st))"
        using Some ob0 True by (simp add: filterx_object_clone_def alloc_object_def st'_def)
      have i1: "\<forall>r\<ge>next_obj st'. objs st' r = None" using Cons.prems(1) by (simp add: st'_def)
      have i2: "\<forall>r. Some r \<in> set ps \<longrightarrow> objs st' r \<noteq> None"
        using Cons.prems(2) by (auto simp: st'_def)
      from Cons.IH[OF i1 i2] obtain st1 cs where
        r: "clone_values V st' ps = Inr (st1, cs)" "clone_post V st' ps st1 cs" by blast
      have live: "\<forall>r. Some r \<in> set ps \<longrightarrow> objs st r \<noteq> None" using Cons.prems(2) by simp
      from clone_post_mutable[OF ob0 True Cons.prems(1) live r(2)[unfolded st'_def]]
      have "clone_post V st (p # ps) st1 (Some (next_obj st) # cs)" using Some by simp
      with cl r(1) show ?thesis by simp
    next
      case False
      define st' where "st' = st\<lparr>objs := (objs st)(r0 \<mapsto> ob0\<lparr>obj_ref_cnt := obj_ref_cnt ob0 + 1\<rparr>)\<rparr>"
      have cl: "filterx_object_clone V st p = Inr (st', Some r0)"
        using Some ob0 False by (simp add: filterx_object_clone_def filterx_object_ref_def st'_def)
      have i1: "\<forall>r\<ge>next_obj st'. objs st' r = None"
        using Cons.prems(1) ob0 by (auto simp: st'_def)
      have i2: "\<forall>r. Some r \<in> set ps \<longrightarrow> objs st' r \<noteq> None"
        using Cons.prems(2) by (auto simp: st'_def)
      from Cons.IH[OF i1 i2] obtain st1 cs where
        r: "clone_values V st' ps = Inr (st1, cs)" "clone_post V st' ps st1 cs" by blast
      from clone_post_immutable[OF ob0 False Cons.prems(1) r(2)[unfolded st'_def]]
      have "clone_post V st (p # ps) st1 (Some r0 # cs)" using Some by simp
      with cl r(1) show ?thesis by simp
    qed
  qed
qed

subsection \<open>Cloning a scope\<close>

lemma filterx_object_clone_next_scope:
  "filterx_object_clone V (st\<lparr>next_scope := m\<rparr>) p
     = bind_r (filterx_object_clone V st p) (\<lambda>(st1, c). Inr (st1\<lparr>next_scope := m\<rparr>, c))"
  by (auto simp: filterx_object_clone_def filterx_object_ref_def alloc_object_def
      split: option.splits)

lemma clone_values_next_scope:
  "clone_values V (st\<lparr>next_scope := m\<rparr>) ps
     = bind_r (clone_values V st ps) (\<lambda>(st1, cs). Inr (st1\<lparr>next_scope := m\<rparr>, cs))"
proof (induction ps arbitrary: st)
  case Nil
  then show ?case by simp
next
  case (Cons p ps)
  show ?case
  proof (cases "filterx_object_clone V st p")
    case (Inl e)
    then show ?thesis by (simp add: filterx_object_clone_next_scope)
  next
    case (Inr x)
    obtain st1 c where x: "x = (st1, c)" by (cases x)
    show ?thesis
      using Inr x Cons.IH[of st1]
      by (cases "clone_values V st1 ps") (auto simp: filterx_object_clone_next_scope)
  qed
qed

lemma cloned_variables_length [simp]:
  "length cs = length vs \<Longrightarrow> length (cloned_variables vs cs) = length vs"
  by (simp add: cloned_variables_def)

lemma cloned_variables_nth [simp]:
  "length cs = length vs \<Longrightarrow> i < length vs \<Longrightarrow>
   cloned_variables vs cs ! i = (vs ! i)\<lparr>v_value := cs ! i\<rparr>"
  by (simp add: cloned_variables_def)


lemma scope_clone_effect:
  assumes "scopes st a = Some s" and "scopes st (next_scope st) = None"
    and "\<forall>r\<ge>next_obj st. objs st r = None"
    and "\<forall>r. Some r \<in> set (map v_value (variables s)) \<longrightarrow> objs st r \<noteq> None"
    and "int (length (variables s)) \<le> gint_max"
  shows "\<exists>st1 cs. clone_values V st (map v_value (variables s)) = Inr (st1, cs)
           \<and> clone_post V st (map v_value (variables s)) st1 cs
           \<and> filterx_scope_clone V st a
               = Inr (st1\<lparr>scopes := (scopes st)(next_scope st \<mapsto>
                          \<lparr>ref_cnt = 1, variables = cloned_variables (variables s) cs,
                           weak_refs = [], write_protected = False\<rparr>),
                        next_scope := next_scope st + 1\<rparr>,
                      next_scope st)"
proof -
  from clone_values_effect[OF assms(3,4), of V] obtain st1 cs where
    cv: "clone_values V st (map v_value (variables s)) = Inr (st1, cs)"
        "clone_post V st (map v_value (variables s)) st1 cs"
    by blast
  define n where "n = next_scope st"
  define t :: filterx_scope where
    "t = \<lparr>ref_cnt = 1, variables = [], weak_refs = [], write_protected = False\<rparr>"
  define st0 where "st0 = st\<lparr>scopes := (scopes st)(n \<mapsto> t), next_scope := n + 1\<rparr>"
  have new: "filterx_scope_new st = (st0, n)"
    by (simp add: filterx_scope_new_def st0_def n_def t_def)
  have ne: "a \<noteq> n" using assms(1,2) by (auto simp: n_def)
  have o: "scopes st0 a = Some s" using assms(1) ne by (simp add: st0_def)
  have sf: "scopes st0 n = Some t" by (simp add: st0_def)
  have cv0: "clone_values V st0 (map v_value (variables s))
               = Inr (st1\<lparr>scopes := (scopes st)(n \<mapsto> t), next_scope := n + 1\<rparr>, cs)"
    using cv(1) by (simp add: st0_def clone_values_next_scope clone_values_scopes)
  have "clone_loop V a n [0..<length (variables s)] st0
         = bind_r (clone_values V st0 (map v_value (drop 0 (variables s)))) (\<lambda>(st1, cs).
             Inr (st1\<lparr>scopes := (scopes st0)(n \<mapsto>
                    t\<lparr>variables := variables t @ cloned_variables (drop 0 (variables s)) cs\<rparr>)\<rparr>))"
    by (rule clone_loop_values[OF ne o sf]) (simp_all add: t_def)
  then have loop: "clone_loop V a n [0..<length (variables s)] st0
         = Inr (st1\<lparr>scopes := (scopes st)(n \<mapsto>
                          \<lparr>ref_cnt = 1, variables = cloned_variables (variables s) cs,
                           weak_refs = [], write_protected = False\<rparr>),
                        next_scope := n + 1\<rparr>)"
    using cv0 by (simp add: st0_def t_def)
  have "filterx_scope_clone V st a
               = Inr (st1\<lparr>scopes := (scopes st)(n \<mapsto>
                          \<lparr>ref_cnt = 1, variables = cloned_variables (variables s) cs,
                           weak_refs = [], write_protected = False\<rparr>),
                        next_scope := n + 1\<rparr>,
                      n)"
    using new o assms(5) loop by (simp add: filterx_scope_clone_def)
  with cv show ?thesis unfolding n_def by blast
qed


lemma make_writable_shared:
  assumes "scopes st a = Some s" and "scopes st (next_scope st) = None"
    and "\<forall>r\<ge>next_obj st. objs st r = None"
    and "\<forall>r. Some r \<in> set (map v_value (variables s)) \<longrightarrow> objs st r \<noteq> None"
    and "int (length (variables s)) \<le> gint_max"
    and "write_protected s" and "ref_cnt s - 1 \<noteq> 0"
  shows "\<exists>st1 cs. clone_values V st (map v_value (variables s)) = Inr (st1, cs)
           \<and> clone_post V st (map v_value (variables s)) st1 cs
           \<and> filterx_scope_make_writable V st a
               = Inr (st1\<lparr>scopes := (scopes st)(next_scope st \<mapsto>
                          \<lparr>ref_cnt = 1, variables = cloned_variables (variables s) cs,
                           weak_refs = [], write_protected = False\<rparr>,
                          a \<mapsto> s\<lparr>ref_cnt := ref_cnt s - 1\<rparr>),
                        next_scope := next_scope st + 1\<rparr>,
                      next_scope st)"
proof -
  from scope_clone_effect[OF assms(1-5), of V] obtain st1 cs where
    c: "clone_values V st (map v_value (variables s)) = Inr (st1, cs)"
       "clone_post V st (map v_value (variables s)) st1 cs"
       "filterx_scope_clone V st a
               = Inr (st1\<lparr>scopes := (scopes st)(next_scope st \<mapsto>
                          \<lparr>ref_cnt = 1, variables = cloned_variables (variables s) cs,
                           weak_refs = [], write_protected = False\<rparr>),
                        next_scope := next_scope st + 1\<rparr>,
                      next_scope st)"
    by blast
  have ne: "a \<noteq> next_scope st" using assms(1,2) by auto
  have "filterx_scope_make_writable V st a
               = Inr (st1\<lparr>scopes := (scopes st)(next_scope st \<mapsto>
                          \<lparr>ref_cnt = 1, variables = cloned_variables (variables s) cs,
                           weak_refs = [], write_protected = False\<rparr>,
                          a \<mapsto> s\<lparr>ref_cnt := ref_cnt s - 1\<rparr>),
                        next_scope := next_scope st + 1\<rparr>,
                      next_scope st)"
    using assms(1,6,7) c(3) ne
    by (simp add: filterx_scope_make_writable_def filterx_scope_unref_def)
  with c(1,2) show ?thesis by blast
qed

subsection \<open>Freeing a scope\<close>

lemma free_variables_release: "free_variables st vs = release_all st (map v_value vs)"
  by (induction vs arbitrary: st) (simp_all add: variable_free_def bind_r_def split: sum.splits)

lemma free_weak_refs_release: "free_weak_refs st rs = release_all st (map Some rs)"
  by (induction rs arbitrary: st) (simp_all add: bind_r_def split: sum.splits)

lemma release_all_append:
  "release_all st (ps @ qs) = bind_r (release_all st ps) (\<lambda>st1. release_all st1 qs)"
  by (induction ps arbitrary: st) (simp_all add: bind_r_def split: sum.splits)

lemma scope_free_release:
  "scopes st a = Some s \<Longrightarrow>
   scope_free st a
     = bind_r (release_all st (map v_value (variables s) @ map Some (weak_refs s)))
         (\<lambda>st2. Inr (st2\<lparr>scopes := (scopes st2)(a := None)\<rparr>))"
  by (simp add: scope_free_def free_variables_release free_weak_refs_release release_all_append
      bind_r_def split: sum.splits)

lemma count_list_map_Some [simp]: "count_list (map Some rs) (Some r) = count_list rs r"
  by (induction rs) simp_all

lemma scope_refs_count:
  "scope_refs s r = count_list (map v_value (variables s) @ map Some (weak_refs s)) (Some r)"
  by (simp add: scope_refs_def value_refs_def)

lemma release_all_effect:
  assumes "\<forall>r. 0 < count_list ps (Some r) \<longrightarrow>
             (\<exists>ob. objs st r = Some ob \<and> int (count_list ps (Some r)) \<le> obj_ref_cnt ob)"
  shows "\<exists>st'. release_all st ps = Inr st' \<and> scopes st' = scopes st
           \<and> next_obj st' = next_obj st \<and> next_scope st' = next_scope st
           \<and> (\<forall>r. objs st' r =
                 (case objs st r of
                    None \<Rightarrow> None
                  | Some ob \<Rightarrow>
                      if 0 < count_list ps (Some r) \<and> obj_ref_cnt ob = int (count_list ps (Some r))
                      then None
                      else Some (ob\<lparr>obj_ref_cnt := obj_ref_cnt ob - int (count_list ps (Some r))\<rparr>)))"
  using assms
proof (induction ps arbitrary: st)
  case Nil
  then show ?case by (auto split: option.splits)
next
  case (Cons p ps)
  show ?case
  proof (cases p)
    case None
    have "\<forall>r. 0 < count_list ps (Some r) \<longrightarrow>
             (\<exists>ob. objs st r = Some ob \<and> int (count_list ps (Some r)) \<le> obj_ref_cnt ob)"
      using Cons.prems None by simp
    from Cons.IH[OF this] show ?thesis unfolding None by (simp cong: option.case_cong if_cong)
  next
    case (Some r0)
    from Cons.prems Some obtain ob0 where
      ob0: "objs st r0 = Some ob0" "int (count_list ps (Some r0)) + 1 \<le> obj_ref_cnt ob0"
      by (auto dest!: spec[of _ r0])
    define st1 where "st1 = (if obj_ref_cnt ob0 - 1 = 0 then st\<lparr>objs := (objs st)(r0 := None)\<rparr>
                             else st\<lparr>objs := (objs st)(r0 \<mapsto> ob0\<lparr>obj_ref_cnt := obj_ref_cnt ob0 - 1\<rparr>)\<rparr>)"
    have un: "filterx_object_unref st p = Inr st1"
      using Some ob0(1) by (simp add: filterx_object_unref_def st1_def)
    have pre: "\<forall>r. 0 < count_list ps (Some r) \<longrightarrow>
             (\<exists>ob. objs st1 r = Some ob \<and> int (count_list ps (Some r)) \<le> obj_ref_cnt ob)"
    proof (intro allI impI)
      fix r assume r: "0 < count_list ps (Some r)"
      show "\<exists>ob. objs st1 r = Some ob \<and> int (count_list ps (Some r)) \<le> obj_ref_cnt ob"
      proof (cases "r = r0")
        case True
        with r ob0 show ?thesis by (auto simp: st1_def)
      next
        case False
        with Cons.prems Some r show ?thesis by (auto simp: st1_def dest!: spec[of _ r])
      qed
    qed
    from Cons.IH[OF pre] obtain st' where
      r: "release_all st1 ps = Inr st'" "scopes st' = scopes st1"
         "next_obj st' = next_obj st1" "next_scope st' = next_scope st1"
         "\<forall>r. objs st' r =
                 (case objs st1 r of
                    None \<Rightarrow> None
                  | Some ob \<Rightarrow>
                      if 0 < count_list ps (Some r) \<and> obj_ref_cnt ob = int (count_list ps (Some r))
                      then None
                      else Some (ob\<lparr>obj_ref_cnt := obj_ref_cnt ob - int (count_list ps (Some r))\<rparr>))"
      by blast
    have s1: "scopes st1 = scopes st" "next_obj st1 = next_obj st" "next_scope st1 = next_scope st"
      by (simp_all add: st1_def)
    have objs: "\<forall>r. objs st' r =
                 (case objs st r of
                    None \<Rightarrow> None
                  | Some ob \<Rightarrow>
                      if 0 < count_list (p # ps) (Some r) \<and> obj_ref_cnt ob = int (count_list (p # ps) (Some r))
                      then None
                      else Some (ob\<lparr>obj_ref_cnt := obj_ref_cnt ob - int (count_list (p # ps) (Some r))\<rparr>))"
    proof
      fix r
      show "objs st' r =
                 (case objs st r of
                    None \<Rightarrow> None
                  | Some ob \<Rightarrow>
                      if 0 < count_list (p # ps) (Some r) \<and> obj_ref_cnt ob = int (count_list (p # ps) (Some r))
                      then None
                      else Some (ob\<lparr>obj_ref_cnt := obj_ref_cnt ob - int (count_list (p # ps) (Some r))\<rparr>))"
      proof (cases "r = r0")
        case True
        show ?thesis
        proof (cases "obj_ref_cnt ob0 - 1 = 0")
          case c: True
          with ob0(2) have "count_list ps (Some r0) = 0" by simp
          with c True ob0(1) r(5)[rule_format, of r0] show ?thesis unfolding Some by (simp add: st1_def)
        next
          case c: False
          with True ob0 r(5)[rule_format, of r0] show ?thesis unfolding Some
            by (auto simp: st1_def)
        qed
      next
        case False
        with r(5)[rule_format, of r] show ?thesis unfolding Some
          by (simp add: st1_def split: option.splits)
      qed
    qed
    show ?thesis
      using un r(1-4) s1 objs by simp
  qed
qed

lemma count_list_pos: "x \<in> set xs \<Longrightarrow> 0 < count_list xs x"
  using count_list_0_iff[of xs x] by (cases "count_list xs x") auto

lemma owns_refs_values_live:
  assumes "owns_refs st s"
  shows "\<forall>r. Some r \<in> set (map v_value (variables s)) \<longrightarrow> objs st r \<noteq> None"
proof (intro allI impI)
  fix r assume "Some r \<in> set (map v_value (variables s))"
  then have "0 < value_refs s r" unfolding value_refs_def by (rule count_list_pos)
  then have "0 < scope_refs s r" by (simp add: scope_refs_def)
  with assms show "objs st r \<noteq> None" by (auto simp: owns_refs_def)
qed

lemma clone_post_pointwise:
  assumes "clone_post V st ps st1 cs" and "i < length ps"
    and "\<forall>r\<ge>next_obj st. objs st r = None"
  shows "(ps ! i = None \<longrightarrow> cs ! i = None)
       \<and> (\<forall>r ob. ps ! i = Some r \<and> objs st r = Some ob \<longrightarrow>
             (if is_mutable V (obj_data ob)
              then \<exists>c. cs ! i = Some c \<and> next_obj st \<le> c
                     \<and> objs st1 c = Some ((type_clone V ob)\<lparr>obj_ref_cnt := 1\<rparr>)
              else cs ! i = Some r
                   \<and> (\<exists>ob'. objs st1 r = Some ob' \<and> obj_data ob' = obj_data ob
                          \<and> modified_in_place ob' = modified_in_place ob)))"
proof (intro conjI allI impI)
  note a = assms(1)[unfolded clone_post_def]
  show "ps ! i = None \<Longrightarrow> cs ! i = None" using a assms(2) by blast
  fix r ob assume h: "ps ! i = Some r \<and> objs st r = Some ob"
  from a assms(2) h have b: "if is_mutable V (obj_data ob)
              then \<exists>c. cs ! i = Some c \<and> next_obj st \<le> c \<and> c < next_obj st1
                     \<and> objs st1 c = Some ((type_clone V ob)\<lparr>obj_ref_cnt := 1\<rparr>)
              else cs ! i = Some r"
    by blast
  have r: "r < next_obj st" using h assms(3) by (metis not_le option.distinct(1))
  with a have "objs st1 r = map_option (\<lambda>ob. ob\<lparr>obj_ref_cnt := obj_ref_cnt ob + int (count_list cs (Some r))\<rparr>) (objs st r)"
    by blast
  with h have c: "\<exists>ob'. objs st1 r = Some ob' \<and> obj_data ob' = obj_data ob
                          \<and> modified_in_place ob' = modified_in_place ob"
    by simp
  show "if is_mutable V (obj_data ob)
              then \<exists>c. cs ! i = Some c \<and> next_obj st \<le> c
                     \<and> objs st1 c = Some ((type_clone V ob)\<lparr>obj_ref_cnt := 1\<rparr>)
              else cs ! i = Some r
                   \<and> (\<exists>ob'. objs st1 r = Some ob' \<and> obj_data ob' = obj_data ob
                          \<and> modified_in_place ob' = modified_in_place ob)"
    using b c by (auto split: if_splits)
qed

text \<open>
  The values of the clone survive the release of the original scope: a clone of a mutable
  value is an object the original never referred to, and a shared immutable value counts
  the references of the original and at least one more.
\<close>

lemma clone_survives_release:
  assumes post: "clone_post V st (map v_value (variables s)) st1 cs"
    and alloc: "\<forall>r\<ge>next_obj st. objs st r = None"
    and own: "owns_refs st s"
    and rel: "\<forall>r. objs st2 r =
                 (case objs st1 r of
                    None \<Rightarrow> None
                  | Some ob \<Rightarrow>
                      if 0 < scope_refs s r \<and> obj_ref_cnt ob = int (scope_refs s r)
                      then None
                      else Some (ob\<lparr>obj_ref_cnt := obj_ref_cnt ob - int (scope_refs s r)\<rparr>))"
    and i: "i < length (variables s)"
  shows "(v_value (variables s ! i) = None \<longrightarrow> cs ! i = None)
       \<and> (\<forall>r ob. v_value (variables s ! i) = Some r \<and> objs st r = Some ob \<longrightarrow>
             (if is_mutable V (obj_data ob)
              then \<exists>c. cs ! i = Some c \<and> next_obj st \<le> c
                     \<and> objs st2 c = Some ((type_clone V ob)\<lparr>obj_ref_cnt := 1\<rparr>)
              else cs ! i = Some r
                   \<and> (\<exists>ob'. objs st2 r = Some ob' \<and> obj_data ob' = obj_data ob
                          \<and> modified_in_place ob' = modified_in_place ob)))"
proof (intro conjI allI impI)
  have i': "i < length (map v_value (variables s))" using i by simp
  note pw = clone_post_pointwise[OF post i' alloc, unfolded nth_map[OF i]]
  note a = post[unfolded clone_post_def]
  show "v_value (variables s ! i) = None \<Longrightarrow> cs ! i = None" using pw by blast
  fix r ob assume h: "v_value (variables s ! i) = Some r \<and> objs st r = Some ob"
  have fresh_unref: "scope_refs s c = 0" if "next_obj st \<le> c" for c
  proof (rule ccontr)
    assume "scope_refs s c \<noteq> 0"
    then have "0 < scope_refs s c" by simp
    with own have "objs st c \<noteq> None" by (auto simp: owns_refs_def)
    with alloc that show False by simp
  qed
  show "if is_mutable V (obj_data ob)
              then \<exists>c. cs ! i = Some c \<and> next_obj st \<le> c
                     \<and> objs st2 c = Some ((type_clone V ob)\<lparr>obj_ref_cnt := 1\<rparr>)
              else cs ! i = Some r
                   \<and> (\<exists>ob'. objs st2 r = Some ob' \<and> obj_data ob' = obj_data ob
                          \<and> modified_in_place ob' = modified_in_place ob)"
  proof (cases "is_mutable V (obj_data ob)")
    case True
    with pw h obtain c where c: "cs ! i = Some c" "next_obj st \<le> c"
      "objs st1 c = Some ((type_clone V ob)\<lparr>obj_ref_cnt := 1\<rparr>)"
      by auto
    from rel[rule_format, of c] c(3) fresh_unref[OF c(2)]
    have "objs st2 c = Some ((type_clone V ob)\<lparr>obj_ref_cnt := 1\<rparr>)" by simp
    with c True show ?thesis by auto
  next
    case False
    with pw h have c: "cs ! i = Some r" by auto
    have r: "r < next_obj st" using h alloc by (metis not_le option.distinct(1))
    have "Some r \<in> set (map v_value (variables s))" using h i by (metis i' nth_map nth_mem)
    then have vr: "0 < value_refs s r" unfolding value_refs_def by (rule count_list_pos)
    then have "0 < scope_refs s r" by (simp add: scope_refs_def)
    with own obtain ob1 where "objs st r = Some ob1" "int (scope_refs s r) \<le> obj_ref_cnt ob1"
      unfolding owns_refs_def by blast
    with h have c0: "int (scope_refs s r) \<le> obj_ref_cnt ob" by simp
    from a r h False have cnt: "count_list cs (Some r) = value_refs s r"
      and o1: "objs st1 r = Some (ob\<lparr>obj_ref_cnt := obj_ref_cnt ob + int (count_list cs (Some r))\<rparr>)"
      by (auto simp: value_refs_def)
    have "obj_ref_cnt ob + int (value_refs s r) \<noteq> int (scope_refs s r)"
      using c0 vr by simp
    with rel[rule_format, of r] o1 cnt
    have "objs st2 r = Some (ob\<lparr>obj_ref_cnt := obj_ref_cnt ob + int (value_refs s r) - int (scope_refs s r)\<rparr>)"
      by simp
    with c False show ?thesis by simp
  qed
qed

lemma clone_post_cong:
  "objs st1' = objs st1 \<Longrightarrow> next_obj st1' = next_obj st1 \<Longrightarrow>
   clone_post V st ps st1' cs = clone_post V st ps st1 cs"
  by (simp add: clone_post_def)

lemma make_writable_protected:
  assumes sc: "scopes st a = Some s" and nf: "scopes st (next_scope st) = None"
    and alloc: "\<forall>r\<ge>next_obj st. objs st r = None"
    and len: "int (length (variables s)) \<le> gint_max"
    and own: "owns_refs st s" and prot: "write_protected s"
  shows "\<exists>st' cs. filterx_scope_make_writable V st a = Inr (st', next_scope st)
     \<and> scopes st' = (scopes st)(next_scope st \<mapsto>
            \<lparr>ref_cnt = 1, variables = cloned_variables (variables s) cs,
             weak_refs = [], write_protected = False\<rparr>,
          a := (if ref_cnt s - 1 = 0 then None else Some (s\<lparr>ref_cnt := ref_cnt s - 1\<rparr>)))
     \<and> next_scope st' = next_scope st + 1
     \<and> length cs = length (variables s)
     \<and> (ref_cnt s - 1 \<noteq> 0 \<longrightarrow> clone_post V st (map v_value (variables s)) st' cs)
     \<and> (\<forall>i<length (variables s).
           (v_value (variables s ! i) = None \<longrightarrow> cs ! i = None)
         \<and> (\<forall>r ob. v_value (variables s ! i) = Some r \<and> objs st r = Some ob \<longrightarrow>
               (if is_mutable V (obj_data ob)
                then \<exists>c. cs ! i = Some c \<and> next_obj st \<le> c
                       \<and> objs st' c = Some ((type_clone V ob)\<lparr>obj_ref_cnt := 1\<rparr>)
                else cs ! i = Some r
                     \<and> (\<exists>ob'. objs st' r = Some ob' \<and> obj_data ob' = obj_data ob
                            \<and> modified_in_place ob' = modified_in_place ob))))"
proof -
  note live = owns_refs_values_live[OF own]
  define n where "n = next_scope st"
  define ps where "ps = map v_value (variables s)"
  from scope_clone_effect[OF sc nf alloc live len, of V] obtain st1 cs where
    cv: "clone_values V st ps = Inr (st1, cs)" and post: "clone_post V st ps st1 cs"
    and cl: "filterx_scope_clone V st a
               = Inr (st1\<lparr>scopes := (scopes st)(n \<mapsto>
                          \<lparr>ref_cnt = 1, variables = cloned_variables (variables s) cs,
                           weak_refs = [], write_protected = False\<rparr>),
                        next_scope := n + 1\<rparr>, n)"
    unfolding n_def ps_def by blast
  define t where "t = \<lparr>ref_cnt = 1, variables = cloned_variables (variables s) cs,
                           weak_refs = [], write_protected = False\<rparr>"
  define stc where "stc = st1\<lparr>scopes := (scopes st)(n \<mapsto> t), next_scope := n + 1\<rparr>"
  have cl': "filterx_scope_clone V st a = Inr (stc, n)" using cl by (simp add: stc_def t_def)
  have ne: "a \<noteq> n" using sc nf by (auto simp: n_def)
  have lcs: "length cs = length (variables s)"
    using post by (simp add: clone_post_def ps_def)
  define s0 where "s0 = s\<lparr>ref_cnt := ref_cnt s - 1\<rparr>"
  define stc1 where "stc1 = stc\<lparr>scopes := (scopes stc)(a \<mapsto> s0)\<rparr>"
  have mw: "filterx_scope_make_writable V st a
              = bind_r (if ref_cnt s - 1 = 0 then scope_free stc1 a else Inr stc1)
                  (\<lambda>st2. Inr (st2, n))"
    using sc prot cl' ne
    by (simp add: filterx_scope_make_writable_def filterx_scope_unref_def stc1_def stc_def s0_def Let_def)
  show ?thesis
  proof (cases "ref_cnt s - 1 = 0")
    case False
    have r: "filterx_scope_make_writable V st a = Inr (stc1, n)" using mw False by simp
    have a1: "scopes stc1 = (scopes st)(n \<mapsto> t, a := (if ref_cnt s - 1 = 0 then None else Some s0))"
      using False by (simp add: stc1_def stc_def)
    have a2: "next_scope stc1 = n + 1" by (simp add: stc1_def stc_def)
    have "objs stc1 = objs st1" "next_obj stc1 = next_obj st1" by (simp_all add: stc1_def stc_def)
    from clone_post_cong[OF this] post have a3: "clone_post V st ps stc1 cs" by simp
    have a4: "\<forall>i<length (variables s).
           (v_value (variables s ! i) = None \<longrightarrow> cs ! i = None)
         \<and> (\<forall>r ob. v_value (variables s ! i) = Some r \<and> objs st r = Some ob \<longrightarrow>
               (if is_mutable V (obj_data ob)
                then \<exists>c. cs ! i = Some c \<and> next_obj st \<le> c
                       \<and> objs stc1 c = Some ((type_clone V ob)\<lparr>obj_ref_cnt := 1\<rparr>)
                else cs ! i = Some r
                     \<and> (\<exists>ob'. objs stc1 r = Some ob' \<and> obj_data ob' = obj_data ob
                            \<and> modified_in_place ob' = modified_in_place ob)))"
    proof (intro allI impI)
      fix i assume i: "i < length (variables s)"
      then have i': "i < length ps" by (simp add: ps_def)
      show "(v_value (variables s ! i) = None \<longrightarrow> cs ! i = None)
         \<and> (\<forall>r ob. v_value (variables s ! i) = Some r \<and> objs st r = Some ob \<longrightarrow>
               (if is_mutable V (obj_data ob)
                then \<exists>c. cs ! i = Some c \<and> next_obj st \<le> c
                       \<and> objs stc1 c = Some ((type_clone V ob)\<lparr>obj_ref_cnt := 1\<rparr>)
                else cs ! i = Some r
                     \<and> (\<exists>ob'. objs stc1 r = Some ob' \<and> obj_data ob' = obj_data ob
                            \<and> modified_in_place ob' = modified_in_place ob)))"
        using clone_post_pointwise[OF a3 i' alloc, unfolded ps_def nth_map[OF i]] .
    qed
    show ?thesis
      apply (rule exI[of _ stc1], rule exI[of _ cs])
      using r a1 a2 lcs a3 a4 False unfolding n_def[symmetric] t_def[symmetric] s0_def[symmetric] ps_def[symmetric]
      by (intro conjI impI) assumption+
  next
    case True
    have sc1: "scopes stc1 a = Some s0" by (simp add: stc1_def)
    have fr: "scope_free stc1 a
     = bind_r (release_all stc1 (map v_value (variables s0) @ map Some (weak_refs s0)))
         (\<lambda>st2. Inr (st2\<lparr>scopes := (scopes st2)(a := None)\<rparr>))"
      by (rule scope_free_release[OF sc1])
    have o1: "objs stc1 = objs st1" "next_obj stc1 = next_obj st1" by (simp_all add: stc1_def stc_def)
    have cnt: "\<And>r. count_list (map v_value (variables s0) @ map Some (weak_refs s0)) (Some r)
                  = scope_refs s r"
      by (simp add: scope_refs_def value_refs_def s0_def)
    note a = post[unfolded clone_post_def]
    have pre: "\<forall>r. 0 < count_list (map v_value (variables s0) @ map Some (weak_refs s0)) (Some r) \<longrightarrow>
             (\<exists>ob. objs stc1 r = Some ob
                \<and> int (count_list (map v_value (variables s0) @ map Some (weak_refs s0)) (Some r))
                    \<le> obj_ref_cnt ob)"
    proof (intro allI impI)
      fix r assume "0 < count_list (map v_value (variables s0) @ map Some (weak_refs s0)) (Some r)"
      then have p: "0 < scope_refs s r" by (simp only: cnt)
      with own obtain ob where ob: "objs st r = Some ob" "int (scope_refs s r) \<le> obj_ref_cnt ob"
        unfolding owns_refs_def by blast
      have r: "r < next_obj st" using ob(1) alloc by (metis not_le option.distinct(1))
      with a have "objs st1 r = map_option (\<lambda>ob. ob\<lparr>obj_ref_cnt := obj_ref_cnt ob + int (count_list cs (Some r))\<rparr>) (objs st r)"
        by blast
      with ob have "objs stc1 r = Some (ob\<lparr>obj_ref_cnt := obj_ref_cnt ob + int (count_list cs (Some r))\<rparr>)"
        "int (scope_refs s r) \<le> obj_ref_cnt (ob\<lparr>obj_ref_cnt := obj_ref_cnt ob + int (count_list cs (Some r))\<rparr>)"
        by (simp_all add: o1)
      then show "\<exists>ob. objs stc1 r = Some ob
                \<and> int (count_list (map v_value (variables s0) @ map Some (weak_refs s0)) (Some r))
                    \<le> obj_ref_cnt ob"
        unfolding cnt by blast
    qed
    from release_all_effect[OF pre] obtain st2 where
      rl: "release_all stc1 (map v_value (variables s0) @ map Some (weak_refs s0)) = Inr st2"
          "scopes st2 = scopes stc1" "next_scope st2 = next_scope stc1"
      and ro: "\<forall>r. objs st2 r =
                 (case objs stc1 r of
                    None \<Rightarrow> None
                  | Some ob \<Rightarrow>
                      if 0 < count_list (map v_value (variables s0) @ map Some (weak_refs s0)) (Some r)
                         \<and> obj_ref_cnt ob = int (count_list (map v_value (variables s0) @ map Some (weak_refs s0)) (Some r))
                      then None
                      else Some (ob\<lparr>obj_ref_cnt := obj_ref_cnt ob
                             - int (count_list (map v_value (variables s0) @ map Some (weak_refs s0)) (Some r))\<rparr>))"
      by blast
    define st' where "st' = st2\<lparr>scopes := (scopes st2)(a := None)\<rparr>"
    have r: "filterx_scope_make_writable V st a = Inr (st', n)"
      using mw True fr rl(1) by (simp add: st'_def)
    have a1: "scopes st' = (scopes st)(n \<mapsto> t, a := (if ref_cnt s - 1 = 0 then None else Some s0))"
      using True rl(2) by (simp add: st'_def stc1_def stc_def)
    have a2: "next_scope st' = n + 1" using rl(3) by (simp add: st'_def stc1_def stc_def)
    have rel: "\<forall>r. objs st' r =
                 (case objs st1 r of
                    None \<Rightarrow> None
                  | Some ob \<Rightarrow>
                      if 0 < scope_refs s r \<and> obj_ref_cnt ob = int (scope_refs s r)
                      then None
                      else Some (ob\<lparr>obj_ref_cnt := obj_ref_cnt ob - int (scope_refs s r)\<rparr>))"
      using ro unfolding cnt o1 by (simp add: st'_def)
    have a4: "\<forall>i<length (variables s).
           (v_value (variables s ! i) = None \<longrightarrow> cs ! i = None)
         \<and> (\<forall>r ob. v_value (variables s ! i) = Some r \<and> objs st r = Some ob \<longrightarrow>
               (if is_mutable V (obj_data ob)
                then \<exists>c. cs ! i = Some c \<and> next_obj st \<le> c
                       \<and> objs st' c = Some ((type_clone V ob)\<lparr>obj_ref_cnt := 1\<rparr>)
                else cs ! i = Some r
                     \<and> (\<exists>ob'. objs st' r = Some ob' \<and> obj_data ob' = obj_data ob
                            \<and> modified_in_place ob' = modified_in_place ob)))"
      using clone_survives_release[OF post[unfolded ps_def] alloc own rel] by blast
    have a3: "ref_cnt s - 1 \<noteq> 0 \<longrightarrow> clone_post V st ps st' cs" using True by simp
    show ?thesis
      apply (rule exI[of _ st'], rule exI[of _ cs])
      using r a1 a2 lcs a3 a4 unfolding n_def[symmetric] t_def[symmetric] s0_def[symmetric] ps_def[symmetric]
      by (intro conjI) assumption+
  qed
qed

subsection \<open>Sync of a scope and of its clone\<close>

lemma sync_alike_step:
  assumes rel: "sync_alike (insert i I) stA a stB b" and ni: "i \<notin> I"
  shows "(\<exists>e. sync_variable V a i (stA, m) = Inl e \<and> sync_variable V b i (stB, m) = Inl e)
       \<or> (\<exists>stA' stB' m'. sync_variable V a i (stA, m) = Inr (stA', m')
              \<and> sync_variable V b i (stB, m) = Inr (stB', m')
              \<and> sync_alike I stA' a stB' b)"
proof -
  from rel obtain sA sB where
    sA: "scopes stA a = Some sA" and sB: "scopes stB b = Some sB"
    and len: "length (variables sB) = length (variables sA)"
    and all: "\<forall>j\<in>insert i I. j < length (variables sA)
              \<and> v_handle (variables sB ! j) = v_handle (variables sA ! j)
              \<and> v_floating (variables sB ! j) = v_floating (variables sA ! j)
              \<and> (v_floating (variables sA ! j)
                 \<or> (v_value (variables sA ! j) = None \<and> v_value (variables sB ! j) = None)
                 \<or> (\<exists>rA rB obA obB.
                       v_value (variables sA ! j) = Some rA \<and> v_value (variables sB ! j) = Some rB
                     \<and> objs stA rA = Some obA \<and> objs stB rB = Some obB
                     \<and> ((v_assigned (variables sA ! j) \<and> v_assigned (variables sB ! j)
                          \<and> obj_data obA = obj_data obB)
                        \<or> (\<not> v_assigned (variables sA ! j) \<and> \<not> v_assigned (variables sB ! j)
                           \<and> \<not> modified_in_place obA \<and> \<not> modified_in_place obB))))"
    unfolding sync_alike_def by blast
  have iA: "i < length (variables sA)" and iB: "i < length (variables sB)"
    and hd: "v_handle (variables sB ! i) = v_handle (variables sA ! i)"
    and fl: "v_floating (variables sB ! i) = v_floating (variables sA ! i)"
    using all len by auto
  have restI: "\<forall>j\<in>I. j < length (variables sA)
              \<and> v_handle (variables sB ! j) = v_handle (variables sA ! j)
              \<and> v_floating (variables sB ! j) = v_floating (variables sA ! j)
              \<and> (v_floating (variables sA ! j)
                 \<or> (v_value (variables sA ! j) = None \<and> v_value (variables sB ! j) = None)
                 \<or> (\<exists>rA rB obA obB.
                       v_value (variables sA ! j) = Some rA \<and> v_value (variables sB ! j) = Some rB
                     \<and> objs stA rA = Some obA \<and> objs stB rB = Some obB
                     \<and> ((v_assigned (variables sA ! j) \<and> v_assigned (variables sB ! j)
                          \<and> obj_data obA = obj_data obB)
                        \<or> (\<not> v_assigned (variables sA ! j) \<and> \<not> v_assigned (variables sB ! j)
                           \<and> \<not> modified_in_place obA \<and> \<not> modified_in_place obB))))"
    using all by blast
  have same: "sync_alike I stA a stB b"
    unfolding sync_alike_def using sA sB len restI by blast
  from all have cases: "v_floating (variables sA ! i)
                 \<or> (v_value (variables sA ! i) = None \<and> v_value (variables sB ! i) = None)
                 \<or> (\<exists>rA rB obA obB.
                       v_value (variables sA ! i) = Some rA \<and> v_value (variables sB ! i) = Some rB
                     \<and> objs stA rA = Some obA \<and> objs stB rB = Some obB
                     \<and> ((v_assigned (variables sA ! i) \<and> v_assigned (variables sB ! i)
                          \<and> obj_data obA = obj_data obB)
                        \<or> (\<not> v_assigned (variables sA ! i) \<and> \<not> v_assigned (variables sB ! i)
                           \<and> \<not> modified_in_place obA \<and> \<not> modified_in_place obB)))"
    by blast
  text \<open>What a round changes leaves the other variables alike.\<close>
  have after: "sync_alike I stA' a stB' b"
    if A: "scopes stA' a = Some (sA\<lparr>variables := (variables sA)[i := wA]\<rparr>)"
    and B: "scopes stB' b = Some (sB\<lparr>variables := (variables sB)[i := wB]\<rparr>)"
    and oA: "\<And>r ob. objs stA r = Some ob \<Longrightarrow>
                \<exists>ob'. objs stA' r = Some ob' \<and> obj_data ob' = obj_data ob
                      \<and> (modified_in_place ob' \<longrightarrow> modified_in_place ob)"
    and oB: "\<And>r ob. objs stB r = Some ob \<Longrightarrow>
                \<exists>ob'. objs stB' r = Some ob' \<and> obj_data ob' = obj_data ob
                      \<and> (modified_in_place ob' \<longrightarrow> modified_in_place ob)"
    for stA' stB' wA wB
    unfolding sync_alike_def
  proof (intro exI conjI ballI)
    show "scopes stA' a = Some (sA\<lparr>variables := (variables sA)[i := wA]\<rparr>)" by (rule A)
    show "scopes stB' b = Some (sB\<lparr>variables := (variables sB)[i := wB]\<rparr>)" by (rule B)
    show "length (variables (sB\<lparr>variables := (variables sB)[i := wB]\<rparr>))
            = length (variables (sA\<lparr>variables := (variables sA)[i := wA]\<rparr>))"
      using len by simp
  next
    fix j assume j: "j \<in> I"
    then have ji: "j \<noteq> i" using ni by auto
    from restI j have r: "j < length (variables sA)"
      "v_handle (variables sB ! j) = v_handle (variables sA ! j)"
      "v_floating (variables sB ! j) = v_floating (variables sA ! j)"
      "v_floating (variables sA ! j)
                 \<or> (v_value (variables sA ! j) = None \<and> v_value (variables sB ! j) = None)
                 \<or> (\<exists>rA rB obA obB.
                       v_value (variables sA ! j) = Some rA \<and> v_value (variables sB ! j) = Some rB
                     \<and> objs stA rA = Some obA \<and> objs stB rB = Some obB
                     \<and> ((v_assigned (variables sA ! j) \<and> v_assigned (variables sB ! j)
                          \<and> obj_data obA = obj_data obB)
                        \<or> (\<not> v_assigned (variables sA ! j) \<and> \<not> v_assigned (variables sB ! j)
                           \<and> \<not> modified_in_place obA \<and> \<not> modified_in_place obB)))"
      by blast+
    have nA: "variables (sA\<lparr>variables := (variables sA)[i := wA]\<rparr>) ! j = variables sA ! j"
      and nB: "variables (sB\<lparr>variables := (variables sB)[i := wB]\<rparr>) ! j = variables sB ! j"
      using ji by simp_all
    show "j < length (variables (sA\<lparr>variables := (variables sA)[i := wA]\<rparr>))" using r(1) by simp
    show "v_handle (variables (sB\<lparr>variables := (variables sB)[i := wB]\<rparr>) ! j)
            = v_handle (variables (sA\<lparr>variables := (variables sA)[i := wA]\<rparr>) ! j)"
      unfolding nA nB by (rule r(2))
    show "v_floating (variables (sB\<lparr>variables := (variables sB)[i := wB]\<rparr>) ! j)
            = v_floating (variables (sA\<lparr>variables := (variables sA)[i := wA]\<rparr>) ! j)"
      unfolding nA nB by (rule r(3))
    have g: "v_floating (variables sA ! j)
                 \<or> (v_value (variables sA ! j) = None \<and> v_value (variables sB ! j) = None)
                 \<or> (\<exists>rA rB obA obB.
                       v_value (variables sA ! j) = Some rA \<and> v_value (variables sB ! j) = Some rB
                     \<and> objs stA' rA = Some obA \<and> objs stB' rB = Some obB
                     \<and> ((v_assigned (variables sA ! j) \<and> v_assigned (variables sB ! j)
                          \<and> obj_data obA = obj_data obB)
                        \<or> (\<not> v_assigned (variables sA ! j) \<and> \<not> v_assigned (variables sB ! j)
                           \<and> \<not> modified_in_place obA \<and> \<not> modified_in_place obB)))"
      using r(4)
    proof (elim disjE exE conjE)
      fix rA rB obA obB
      assume v: "v_value (variables sA ! j) = Some rA" "v_value (variables sB ! j) = Some rB"
        and o: "objs stA rA = Some obA" "objs stB rB = Some obB"
        and k: "v_assigned (variables sA ! j)" "v_assigned (variables sB ! j)"
               "obj_data obA = obj_data obB"
      from oA[OF o(1)] obtain oa where oa: "objs stA' rA = Some oa" "obj_data oa = obj_data obA" by blast
      from oB[OF o(2)] obtain ob where ob: "objs stB' rB = Some ob" "obj_data ob = obj_data obB" by blast
      from v k oa ob show ?thesis by auto
    next
      fix rA rB obA obB
      assume v: "v_value (variables sA ! j) = Some rA" "v_value (variables sB ! j) = Some rB"
        and o: "objs stA rA = Some obA" "objs stB rB = Some obB"
        and k: "\<not> v_assigned (variables sA ! j)" "\<not> v_assigned (variables sB ! j)"
               "\<not> modified_in_place obA" "\<not> modified_in_place obB"
      from oA[OF o(1)] k(3) obtain oa where oa: "objs stA' rA = Some oa" "\<not> modified_in_place oa" by blast
      from oB[OF o(2)] k(4) obtain ob where ob: "objs stB' rB = Some ob" "\<not> modified_in_place ob" by blast
      from v k oa ob show ?thesis by auto
    qed simp_all
    show "v_floating (variables (sA\<lparr>variables := (variables sA)[i := wA]\<rparr>) ! j)
                 \<or> (v_value (variables (sA\<lparr>variables := (variables sA)[i := wA]\<rparr>) ! j) = None
                     \<and> v_value (variables (sB\<lparr>variables := (variables sB)[i := wB]\<rparr>) ! j) = None)
                 \<or> (\<exists>rA rB obA obB.
                       v_value (variables (sA\<lparr>variables := (variables sA)[i := wA]\<rparr>) ! j) = Some rA
                     \<and> v_value (variables (sB\<lparr>variables := (variables sB)[i := wB]\<rparr>) ! j) = Some rB
                     \<and> objs stA' rA = Some obA \<and> objs stB' rB = Some obB
                     \<and> ((v_assigned (variables (sA\<lparr>variables := (variables sA)[i := wA]\<rparr>) ! j)
                          \<and> v_assigned (variables (sB\<lparr>variables := (variables sB)[i := wB]\<rparr>) ! j)
                          \<and> obj_data obA = obj_data obB)
                        \<or> (\<not> v_assigned (variables (sA\<lparr>variables := (variables sA)[i := wA]\<rparr>) ! j)
                           \<and> \<not> v_assigned (variables (sB\<lparr>variables := (variables sB)[i := wB]\<rparr>) ! j)
                           \<and> \<not> modified_in_place obA \<and> \<not> modified_in_place obB)))"
      unfolding nA nB by (rule g)
  qed
  from cases show ?thesis
  proof (elim disjE exE conjE)
    assume f: "v_floating (variables sA ! i)"
    then have "sync_variable V a i (stA, m) = Inr (stA, m)"
      by (rule sync_variable_floating[OF sA iA])
    moreover have "sync_variable V b i (stB, m) = Inr (stB, m)"
      using f fl by (intro sync_variable_floating[OF sB iB]) simp
    ultimately show ?thesis using same by blast
  next
    assume n: "v_value (variables sA ! i) = None" "v_value (variables sB ! i) = None"
    show ?thesis
    proof (cases "v_floating (variables sA ! i)")
      case True
      then have "sync_variable V a i (stA, m) = Inr (stA, m)"
        by (rule sync_variable_floating[OF sA iA])
      moreover have "sync_variable V b i (stB, m) = Inr (stB, m)"
        using True fl by (intro sync_variable_floating[OF sB iB]) simp
      ultimately show ?thesis using same by blast
    next
      case False
      define stA' where "stA' = stA\<lparr>scopes := (scopes stA)(a \<mapsto>
                   sA\<lparr>variables := (variables sA)[i := (variables sA ! i)\<lparr>v_assigned := False\<rparr>]\<rparr>)\<rparr>"
      define stB' where "stB' = stB\<lparr>scopes := (scopes stB)(b \<mapsto>
                   sB\<lparr>variables := (variables sB)[i := (variables sB ! i)\<lparr>v_assigned := False\<rparr>]\<rparr>)\<rparr>"
      have ra: "sync_variable V a i (stA, m)
                  = Inr (stA', log_msg_unset_value m (v_handle (variables sA ! i)))"
        unfolding stA'_def by (rule sync_variable_absent[OF sA iA False n(1)])
      have rb: "sync_variable V b i (stB, m)
                  = Inr (stB', log_msg_unset_value m (v_handle (variables sA ! i)))"
        unfolding stB'_def hd[symmetric]
        by (rule sync_variable_absent[OF sB iB _ n(2)]) (use False fl in simp)
      have "sync_alike I stA' a stB' b"
        by (rule after[of stA' _ stB']) (simp_all add: stA'_def stB'_def)
      with ra rb show ?thesis by blast
    qed
  next
    fix rA rB obA obB
    assume v: "v_value (variables sA ! i) = Some rA" "v_value (variables sB ! i) = Some rB"
      and o: "objs stA rA = Some obA" "objs stB rB = Some obB"
      and k: "v_assigned (variables sA ! i)" "v_assigned (variables sB ! i)"
             "obj_data obA = obj_data obB"
    show ?thesis
    proof (cases "v_floating (variables sA ! i)")
      case True
      then have "sync_variable V a i (stA, m) = Inr (stA, m)"
        by (rule sync_variable_floating[OF sA iA])
      moreover have "sync_variable V b i (stB, m) = Inr (stB, m)"
        using True fl by (intro sync_variable_floating[OF sB iB]) simp
      ultimately show ?thesis using same by blast
    next
      case False
      then have FB: "\<not> v_floating (variables sB ! i)" using fl by simp
      show ?thesis
      proof (cases "marshal V (obj_data obA)")
        case None
        have "sync_variable V a i (stA, m) = Inl Aborted"
          by (rule sync_variable_marshal_fails[OF sA iA False v(1) o(1) _ None]) (simp add: k)
        moreover have "sync_variable V b i (stB, m) = Inl Aborted"
          by (rule sync_variable_marshal_fails[OF sB iB FB v(2) o(2)]) (simp_all add: k None[unfolded k(3)])
        ultimately show ?thesis by blast
      next
        case (Some x)
        obtain bytes t where x: "x = (bytes, t)" by (cases x)
        have mA: "marshal V (obj_data obA) = Some (bytes, t)" using Some x by simp
        have mB: "marshal V (obj_data obB) = Some (bytes, t)" using mA k(3) by simp
        have asA: "v_assigned (variables sA ! i) \<or> modified_in_place obA" using k(1) by simp
        have asB: "v_assigned (variables sB ! i) \<or> modified_in_place obB" using k(2) by simp
        define stA' where "stA' = stA\<lparr>objs := (objs stA)(rA \<mapsto> obA\<lparr>modified_in_place := False\<rparr>),
                    scopes := (scopes stA)(a \<mapsto>
                      sA\<lparr>variables := (variables sA)[i := (variables sA ! i)\<lparr>v_assigned := False\<rparr>]\<rparr>)\<rparr>"
        define stB' where "stB' = stB\<lparr>objs := (objs stB)(rB \<mapsto> obB\<lparr>modified_in_place := False\<rparr>),
                    scopes := (scopes stB)(b \<mapsto>
                      sB\<lparr>variables := (variables sB)[i := (variables sB ! i)\<lparr>v_assigned := False\<rparr>]\<rparr>)\<rparr>"
        have ra: "sync_variable V a i (stA, m)
                  = Inr (stA', log_msg_set_value_with_type m (v_handle (variables sA ! i)) bytes t)"
          unfolding stA'_def
          by (rule sync_variable_changed[OF sA iA False v(1) o(1) asA mA])
        have rb: "sync_variable V b i (stB, m)
                  = Inr (stB', log_msg_set_value_with_type m (v_handle (variables sA ! i)) bytes t)"
          unfolding stB'_def hd[symmetric]
          by (rule sync_variable_changed[OF sB iB FB v(2) o(2) asB mB])
        have "sync_alike I stA' a stB' b"
          by (rule after[of stA' _ stB']) (auto simp: stA'_def stB'_def o)
        with ra rb show ?thesis by blast
      qed
    qed
  next
    fix rA rB obA obB
    assume v: "v_value (variables sA ! i) = Some rA" "v_value (variables sB ! i) = Some rB"
      and o: "objs stA rA = Some obA" "objs stB rB = Some obB"
      and k: "\<not> v_assigned (variables sA ! i)" "\<not> v_assigned (variables sB ! i)"
             "\<not> modified_in_place obA" "\<not> modified_in_place obB"
    show ?thesis
    proof (cases "v_floating (variables sA ! i)")
      case True
      then have "sync_variable V a i (stA, m) = Inr (stA, m)"
        by (rule sync_variable_floating[OF sA iA])
      moreover have "sync_variable V b i (stB, m) = Inr (stB, m)"
        using True fl by (intro sync_variable_floating[OF sB iB]) simp
      ultimately show ?thesis using same by blast
    next
      case False
      then have FB: "\<not> v_floating (variables sB ! i)" using fl by simp
      have "sync_variable V a i (stA, m) = Inr (stA, m)"
        by (rule sync_variable_unchanged[OF sA iA False v(1) o(1) k(1,3)])
      moreover have "sync_variable V b i (stB, m) = Inr (stB, m)"
        by (rule sync_variable_unchanged[OF sB iB FB v(2) o(2) k(2,4)])
      ultimately show ?thesis using same by blast
    qed
  qed
qed

lemma sync_alike_loop:
  assumes "distinct is" and "sync_alike (set is) stA a stB b"
  shows "fst (sync_loop V a is (stA, m)) = fst (sync_loop V b is (stB, m))
       \<and> snd (snd (sync_loop V a is (stA, m))) = snd (snd (sync_loop V b is (stB, m)))"
  using assms
proof (induction "is" arbitrary: stA stB m)
  case Nil
  then show ?case by simp
next
  case (Cons i "is")
  have ni: "i \<notin> set is" and d: "distinct is" using Cons.prems(1) by simp_all
  have rel: "sync_alike (insert i (set is)) stA a stB b" using Cons.prems(2) by simp
  from sync_alike_step[OF rel ni, of V m] show ?case
  proof (elim disjE exE conjE)
    fix e assume "sync_variable V a i (stA, m) = Inl e" "sync_variable V b i (stB, m) = Inl e"
    then show ?thesis by simp
  next
    fix stA' stB' m'
    assume s: "sync_variable V a i (stA, m) = Inr (stA', m')"
      "sync_variable V b i (stB, m) = Inr (stB', m')" "sync_alike (set is) stA' a stB' b"
    from Cons.IH[OF d s(3), of m'] s(1,2) show ?thesis by simp
  qed
qed

lemma owns_refs_value_live:
  assumes "owns_refs st s" and "i < length (variables s)" and "v_value (variables s ! i) = Some r"
  shows "\<exists>ob. objs st r = Some ob"
proof -
  have "Some r \<in> set (map v_value (variables s))"
    using assms(2,3) by (metis length_map nth_map nth_mem)
  with owns_refs_values_live[OF assms(1)] show ?thesis by auto
qed

lemma sync_alike_mono:
  assumes rel: "sync_alike I stA a stB b"
    and A: "scopes stA a = Some sA" "scopes stA' a = Some sA'"
           "length (variables sA') = length (variables sA)"
           "\<forall>i\<in>I. variables sA' ! i = variables sA ! i"
    and B: "scopes stB b = Some sB" "scopes stB' b = Some sB'"
           "length (variables sB') = length (variables sB)"
           "\<forall>i\<in>I. variables sB' ! i = variables sB ! i"
    and oA: "\<And>r ob. objs stA r = Some ob \<Longrightarrow>
                \<exists>ob'. objs stA' r = Some ob' \<and> obj_data ob' = obj_data ob
                      \<and> (modified_in_place ob' \<longrightarrow> modified_in_place ob)"
    and oB: "\<And>r ob. objs stB r = Some ob \<Longrightarrow>
                \<exists>ob'. objs stB' r = Some ob' \<and> obj_data ob' = obj_data ob
                      \<and> (modified_in_place ob' \<longrightarrow> modified_in_place ob)"
  shows "sync_alike I stA' a stB' b"
proof -
  from rel A(1) B(1) have len: "length (variables sB) = length (variables sA)"
    and all: "\<forall>j\<in>I. j < length (variables sA)
              \<and> v_handle (variables sB ! j) = v_handle (variables sA ! j)
              \<and> v_floating (variables sB ! j) = v_floating (variables sA ! j)
              \<and> (v_floating (variables sA ! j)
                 \<or> (v_value (variables sA ! j) = None \<and> v_value (variables sB ! j) = None)
                 \<or> (\<exists>rA rB obA obB.
                       v_value (variables sA ! j) = Some rA \<and> v_value (variables sB ! j) = Some rB
                     \<and> objs stA rA = Some obA \<and> objs stB rB = Some obB
                     \<and> ((v_assigned (variables sA ! j) \<and> v_assigned (variables sB ! j)
                          \<and> obj_data obA = obj_data obB)
                        \<or> (\<not> v_assigned (variables sA ! j) \<and> \<not> v_assigned (variables sB ! j)
                           \<and> \<not> modified_in_place obA \<and> \<not> modified_in_place obB))))"
    unfolding sync_alike_def by auto
  show ?thesis
    unfolding sync_alike_def
  proof (intro exI conjI ballI)
    show "scopes stA' a = Some sA'" by (rule A(2))
    show "scopes stB' b = Some sB'" by (rule B(2))
    show "length (variables sB') = length (variables sA')" using len A(3) B(3) by simp
  next
    fix j assume j: "j \<in> I"
    from all j have r: "j < length (variables sA)"
      "v_handle (variables sB ! j) = v_handle (variables sA ! j)"
      "v_floating (variables sB ! j) = v_floating (variables sA ! j)"
      "v_floating (variables sA ! j)
                 \<or> (v_value (variables sA ! j) = None \<and> v_value (variables sB ! j) = None)
                 \<or> (\<exists>rA rB obA obB.
                       v_value (variables sA ! j) = Some rA \<and> v_value (variables sB ! j) = Some rB
                     \<and> objs stA rA = Some obA \<and> objs stB rB = Some obB
                     \<and> ((v_assigned (variables sA ! j) \<and> v_assigned (variables sB ! j)
                          \<and> obj_data obA = obj_data obB)
                        \<or> (\<not> v_assigned (variables sA ! j) \<and> \<not> v_assigned (variables sB ! j)
                           \<and> \<not> modified_in_place obA \<and> \<not> modified_in_place obB)))"
      by blast+
    have nA: "variables sA' ! j = variables sA ! j" and nB: "variables sB' ! j = variables sB ! j"
      using A(4) B(4) j by simp_all
    show "j < length (variables sA')" using r(1) A(3) by simp
    show "v_handle (variables sB' ! j) = v_handle (variables sA' ! j)"
      unfolding nA nB by (rule r(2))
    show "v_floating (variables sB' ! j) = v_floating (variables sA' ! j)"
      unfolding nA nB by (rule r(3))
    have g: "v_floating (variables sA ! j)
                 \<or> (v_value (variables sA ! j) = None \<and> v_value (variables sB ! j) = None)
                 \<or> (\<exists>rA rB obA obB.
                       v_value (variables sA ! j) = Some rA \<and> v_value (variables sB ! j) = Some rB
                     \<and> objs stA' rA = Some obA \<and> objs stB' rB = Some obB
                     \<and> ((v_assigned (variables sA ! j) \<and> v_assigned (variables sB ! j)
                          \<and> obj_data obA = obj_data obB)
                        \<or> (\<not> v_assigned (variables sA ! j) \<and> \<not> v_assigned (variables sB ! j)
                           \<and> \<not> modified_in_place obA \<and> \<not> modified_in_place obB)))"
      using r(4)
    proof (elim disjE exE conjE)
      fix rA rB obA obB
      assume v: "v_value (variables sA ! j) = Some rA" "v_value (variables sB ! j) = Some rB"
        and o: "objs stA rA = Some obA" "objs stB rB = Some obB"
        and k: "v_assigned (variables sA ! j)" "v_assigned (variables sB ! j)"
               "obj_data obA = obj_data obB"
      from oA[OF o(1)] obtain oa where oa: "objs stA' rA = Some oa" "obj_data oa = obj_data obA" by blast
      from oB[OF o(2)] obtain ob where ob: "objs stB' rB = Some ob" "obj_data ob = obj_data obB" by blast
      from v k oa ob show ?thesis by auto
    next
      fix rA rB obA obB
      assume v: "v_value (variables sA ! j) = Some rA" "v_value (variables sB ! j) = Some rB"
        and o: "objs stA rA = Some obA" "objs stB rB = Some obB"
        and k: "\<not> v_assigned (variables sA ! j)" "\<not> v_assigned (variables sB ! j)"
               "\<not> modified_in_place obA" "\<not> modified_in_place obB"
      from oA[OF o(1)] k(3) obtain oa where oa: "objs stA' rA = Some oa" "\<not> modified_in_place oa" by blast
      from oB[OF o(2)] k(4) obtain ob where ob: "objs stB' rB = Some ob" "\<not> modified_in_place ob" by blast
      from v k oa ob show ?thesis by auto
    qed simp_all
    show "v_floating (variables sA' ! j)
                 \<or> (v_value (variables sA' ! j) = None \<and> v_value (variables sB' ! j) = None)
                 \<or> (\<exists>rA rB obA obB.
                       v_value (variables sA' ! j) = Some rA \<and> v_value (variables sB' ! j) = Some rB
                     \<and> objs stA' rA = Some obA \<and> objs stB' rB = Some obB
                     \<and> ((v_assigned (variables sA' ! j) \<and> v_assigned (variables sB' ! j)
                          \<and> obj_data obA = obj_data obB)
                        \<or> (\<not> v_assigned (variables sA' ! j) \<and> \<not> v_assigned (variables sB' ! j)
                           \<and> \<not> modified_in_place obA \<and> \<not> modified_in_place obB)))"
      unfolding nA nB by (rule g)
  qed
qed

text \<open>What a round of the sync does to the store, whatever the slot.\<close>

lemma sync_round_effect:
  assumes run: "sync_variable V x j (st, m) = Inr (st1, m1)"
  shows "\<exists>s s1. scopes st x = Some s \<and> scopes st1 x = Some s1
           \<and> length (variables s1) = length (variables s)
           \<and> (\<forall>i. i \<noteq> j \<longrightarrow> variables s1 ! i = variables s ! i)"
    and "\<And>r ob. objs st r = Some ob \<Longrightarrow>
            \<exists>ob'. objs st1 r = Some ob' \<and> obj_data ob' = obj_data ob
                  \<and> (modified_in_place ob' \<longrightarrow> modified_in_place ob)"
proof -
  from run obtain var where rd: "read_variable st (x, j) = Inr var"
    by (auto simp: sync_variable_def bind_r_eq_Inr)
  from read_variable_InrD[OF rd] obtain s where sx: "scopes st x = Some s"
    and j: "j < length (variables s)" by auto
  define s1 where "s1 = s\<lparr>variables := (variables s)[j := (variables s ! j)\<lparr>v_assigned := False\<rparr>]\<rparr>"
  have cases: "st1 = st
      \<or> st1 = st\<lparr>scopes := (scopes st)(x \<mapsto> s1)\<rparr>
      \<or> (\<exists>r ob. objs st r = Some ob
            \<and> st1 = st\<lparr>objs := (objs st)(r \<mapsto> ob\<lparr>modified_in_place := False\<rparr>),
                        scopes := (scopes st)(x \<mapsto> s1)\<rparr>)"
  proof (cases "v_floating (variables s ! j)")
    case True
    from sync_variable_floating[OF sx j True, of V m] run show ?thesis by simp
  next
    case nf: False
    show ?thesis
    proof (cases "v_value (variables s ! j)")
      case None
      from sync_variable_absent[OF sx j nf None, of V m] run show ?thesis by (simp add: s1_def)
    next
      case (Some r)
      show ?thesis
      proof (cases "objs st r")
        case None
        with run sx j nf Some show ?thesis
          by (simp add: sync_variable_def read_variable_Some)
      next
        case ob: (Some ob)
        show ?thesis
        proof (cases "v_assigned (variables s ! j) \<or> modified_in_place ob")
          case False
          then have "\<not> v_assigned (variables s ! j)" "\<not> modified_in_place ob" by simp_all
          from sync_variable_unchanged[OF sx j nf Some ob this, of V m] run show ?thesis by simp
        next
          case True
          show ?thesis
          proof (cases "marshal V (obj_data ob)")
            case None
            from sync_variable_marshal_fails[OF sx j nf Some ob True None, of m] run
            show ?thesis by simp
          next
            case (Some bt)
            obtain bytes t where bt: "bt = (bytes, t)" by (cases bt)
            from sync_variable_changed[OF sx j nf \<open>v_value (variables s ! j) = Some r\<close> ob True
                   Some[unfolded bt], of m] run
            have "st1 = st\<lparr>objs := (objs st)(r \<mapsto> ob\<lparr>modified_in_place := False\<rparr>),
                             scopes := (scopes st)(x \<mapsto> s1)\<rparr>"
              by (simp add: s1_def)
            with ob show ?thesis by blast
          qed
        qed
      qed
    qed
  qed
  show "\<exists>s s1. scopes st x = Some s \<and> scopes st1 x = Some s1
           \<and> length (variables s1) = length (variables s)
           \<and> (\<forall>i. i \<noteq> j \<longrightarrow> variables s1 ! i = variables s ! i)"
    using cases sx by (auto simp: s1_def)
  fix r ob assume "objs st r = Some ob"
  with cases show "\<exists>ob'. objs st1 r = Some ob' \<and> obj_data ob' = obj_data ob
                  \<and> (modified_in_place ob' \<longrightarrow> modified_in_place ob)"
    by auto
qed

lemma sync_alike_scopes:
  assumes "sync_alike I stA a stB b"
  obtains sA sB where "scopes stA a = Some sA" and "scopes stB b = Some sB"
  using assms unfolding sync_alike_def by blast

lemma sync_alike_round_left:
  assumes rel: "sync_alike I stA a stB b" and j: "j \<notin> I"
    and run: "sync_variable V a j (stA, m) = Inr (stA', m')"
  shows "sync_alike I stA' a stB b"
proof -
  from rel obtain sA sB where sA: "scopes stA a = Some sA" and sB: "scopes stB b = Some sB"
    by (rule sync_alike_scopes)
  from sync_round_effect(1)[OF run] sA obtain s1 where
    s1: "scopes stA' a = Some s1" "length (variables s1) = length (variables sA)"
        "\<forall>i. i \<noteq> j \<longrightarrow> variables s1 ! i = variables sA ! i"
    by auto
  have same: "\<forall>i\<in>I. variables s1 ! i = variables sA ! i" using s1(3) j by auto
  show ?thesis
  proof (rule sync_alike_mono[OF rel sA s1(1,2) same sB sB])
    show "length (variables sB) = length (variables sB)" by simp
    show "\<forall>i\<in>I. variables sB ! i = variables sB ! i" by simp
    show "\<exists>ob'. objs stA' r = Some ob' \<and> obj_data ob' = obj_data ob
                  \<and> (modified_in_place ob' \<longrightarrow> modified_in_place ob)"
      if "objs stA r = Some ob" for r ob
      using that by (rule sync_round_effect(2)[OF run])
    show "\<exists>ob'. objs stB r = Some ob' \<and> obj_data ob' = obj_data ob
                  \<and> (modified_in_place ob' \<longrightarrow> modified_in_place ob)"
      if "objs stB r = Some ob" for r ob
      using that by simp
  qed
qed

lemma sync_alike_round_right:
  assumes rel: "sync_alike I stA a stB b" and j: "j \<notin> I"
    and run: "sync_variable V b j (stB, m) = Inr (stB', m')"
  shows "sync_alike I stA a stB' b"
proof -
  from rel obtain sA sB where sA: "scopes stA a = Some sA" and sB: "scopes stB b = Some sB"
    by (rule sync_alike_scopes)
  from sync_round_effect(1)[OF run] sB obtain s1 where
    s1: "scopes stB' b = Some s1" "length (variables s1) = length (variables sB)"
        "\<forall>i. i \<noteq> j \<longrightarrow> variables s1 ! i = variables sB ! i"
    by auto
  have same: "\<forall>i\<in>I. variables s1 ! i = variables sB ! i" using s1(3) j by auto
  have idA: "length (variables sA) = length (variables sA)"
    "\<forall>i\<in>I. variables sA ! i = variables sA ! i" by simp_all
  show ?thesis
  proof (rule sync_alike_mono[OF rel sA sA idA sB s1(1,2) same])
    show "\<exists>ob'. objs stB' r = Some ob' \<and> obj_data ob' = obj_data ob
                  \<and> (modified_in_place ob' \<longrightarrow> modified_in_place ob)"
      if "objs stB r = Some ob" for r ob
      using that by (rule sync_round_effect(2)[OF run])
    show "\<exists>ob'. objs stA r = Some ob' \<and> obj_data ob' = obj_data ob
                  \<and> (modified_in_place ob' \<longrightarrow> modified_in_place ob)"
      if "objs stA r = Some ob" for r ob
      using that by simp
  qed
qed

lemma sync_alike_loop_left:
  "sync_alike I stA a stB b \<Longrightarrow> set js \<inter> I = {} \<Longrightarrow>
   sync_loop V a js (stA, m) = (None, stA', m') \<Longrightarrow> sync_alike I stA' a stB b"
proof (induction js arbitrary: stA m)
  case Nil
  then show ?case by simp
next
  case (Cons j js)
  from Cons.prems(3) obtain st2 m2 where
    step: "sync_variable V a j (stA, m) = Inr (st2, m2)"
    and rest: "sync_loop V a js (st2, m2) = (None, stA', m')"
    by (cases "sync_variable V a j (stA, m)") auto
  from Cons.prems(2) have j: "j \<notin> I" and js: "set js \<inter> I = {}" by auto
  from Cons.IH[OF sync_alike_round_left[OF Cons.prems(1) j step] js rest] show ?case .
qed

lemma sync_alike_loop_right:
  "sync_alike I stA a stB b \<Longrightarrow> set js \<inter> I = {} \<Longrightarrow>
   sync_loop V b js (stB, m) = (None, stB', m') \<Longrightarrow> sync_alike I stA a stB' b"
proof (induction js arbitrary: stB m)
  case Nil
  then show ?case by simp
next
  case (Cons j js)
  from Cons.prems(3) obtain st2 m2 where
    step: "sync_variable V b j (stB, m) = Inr (st2, m2)"
    and rest: "sync_loop V b js (st2, m2) = (None, stB', m')"
    by (cases "sync_variable V b j (stB, m)") auto
  from Cons.prems(2) have j: "j \<notin> I" and js: "set js \<inter> I = {}" by auto
  from Cons.IH[OF sync_alike_round_right[OF Cons.prems(1) j step] js rest] show ?case .
qed

text \<open>Two scopes alike in slot \<open>i\<close> do the same to a message in the round of slot \<open>i\<close>.\<close>

lemma sync_alike_round_same:
  assumes "sync_alike {i} stA a stB b"
  shows "map_sum id snd (sync_variable V b i (stB, m)) = map_sum id snd (sync_variable V a i (stA, m))"
proof -
  have "sync_alike (insert i {}) stA a stB b" using assms by simp
  from sync_alike_step[OF this, of V m] show ?thesis by auto
qed

lemma all_set_upt: "(\<forall>i<n. P i) \<longleftrightarrow> (\<forall>i\<in>set [0..<n]. P i)"
  by auto

lemma clone_sync_alike_on:
  assumes sA: "scopes st a = Some s"
    and sB: "scopes st' b = Some \<lparr>ref_cnt = 1, variables = cloned_variables (variables s) cs,
                                  weak_refs = [], write_protected = False\<rparr>"
    and lcs: "length cs = length (variables s)"
    and own: "owns_refs st s"
    and contract: "\<forall>ob. obj_data (type_clone V ob) = obj_data ob"
    and pw: "\<forall>i<length (variables s).
           (v_value (variables s ! i) = None \<longrightarrow> cs ! i = None)
         \<and> (\<forall>r ob. v_value (variables s ! i) = Some r \<and> objs st r = Some ob \<longrightarrow>
               (if is_mutable V (obj_data ob)
                then \<exists>c. cs ! i = Some c \<and> next_obj st \<le> c
                       \<and> objs st' c = Some ((type_clone V ob)\<lparr>obj_ref_cnt := 1\<rparr>)
                else cs ! i = Some r
                     \<and> (\<exists>ob'. objs st' r = Some ob' \<and> obj_data ob' = obj_data ob
                            \<and> modified_in_place ob' = modified_in_place ob)))"
    and sub: "\<forall>i\<in>I. i < length (variables s)"
    and pend: "\<forall>i\<in>I.
           v_floating (variables s ! i) \<or> v_value (variables s ! i) = None
         \<or> v_assigned (variables s ! i)
         \<or> (\<exists>r ob. v_value (variables s ! i) = Some r \<and> objs st r = Some ob
                \<and> \<not> is_mutable V (obj_data ob) \<and> \<not> modified_in_place ob)"
  shows "sync_alike I st a st' b"
  unfolding sync_alike_def
proof (intro exI conjI ballI)
  define t where "t = \<lparr>ref_cnt = 1, variables = cloned_variables (variables s) cs,
                                  weak_refs = [], write_protected = False\<rparr>"
  show "scopes st a = Some s" by (rule sA)
  show "scopes st' b = Some \<lparr>ref_cnt = 1, variables = cloned_variables (variables s) cs,
                                  weak_refs = [], write_protected = False\<rparr>" by (rule sB)
  show "length (variables \<lparr>ref_cnt = 1, variables = cloned_variables (variables s) cs,
                                  weak_refs = [], write_protected = False\<rparr>) = length (variables s)"
    using lcs by simp
  fix i assume iI: "i \<in> I"
  then have i: "i < length (variables s)" using sub by simp
  have nth: "variables \<lparr>ref_cnt = 1, variables = cloned_variables (variables s) cs,
                                  weak_refs = [], write_protected = False\<rparr> ! i
               = (variables s ! i)\<lparr>v_value := cs ! i\<rparr>"
    using lcs i by simp
  show "i < length (variables s)" by (rule i)
  show "v_handle (variables \<lparr>ref_cnt = 1, variables = cloned_variables (variables s) cs,
                                  weak_refs = [], write_protected = False\<rparr> ! i)
          = v_handle (variables s ! i)"
    unfolding nth by simp
  show "v_floating (variables \<lparr>ref_cnt = 1, variables = cloned_variables (variables s) cs,
                                  weak_refs = [], write_protected = False\<rparr> ! i)
          = v_floating (variables s ! i)"
    unfolding nth by simp
  have g: "v_floating (variables s ! i)
                 \<or> (v_value (variables s ! i) = None \<and> cs ! i = None)
                 \<or> (\<exists>rA rB obA obB.
                       v_value (variables s ! i) = Some rA \<and> cs ! i = Some rB
                     \<and> objs st rA = Some obA \<and> objs st' rB = Some obB
                     \<and> ((v_assigned (variables s ! i) \<and> v_assigned (variables s ! i)
                          \<and> obj_data obA = obj_data obB)
                        \<or> (\<not> v_assigned (variables s ! i) \<and> \<not> v_assigned (variables s ! i)
                           \<and> \<not> modified_in_place obA \<and> \<not> modified_in_place obB)))"
  proof (cases "v_value (variables s ! i)")
    case None
    with pw i show ?thesis by simp
  next
    case (Some r)
    from owns_refs_value_live[OF own i Some] obtain ob where ob: "objs st r = Some ob" by blast
    from pw i Some ob have c: "if is_mutable V (obj_data ob)
                then \<exists>c. cs ! i = Some c \<and> next_obj st \<le> c
                       \<and> objs st' c = Some ((type_clone V ob)\<lparr>obj_ref_cnt := 1\<rparr>)
                else cs ! i = Some r
                     \<and> (\<exists>ob'. objs st' r = Some ob' \<and> obj_data ob' = obj_data ob
                            \<and> modified_in_place ob' = modified_in_place ob)"
      by blast
    have eq: "\<exists>rB obB. cs ! i = Some rB \<and> objs st' rB = Some obB \<and> obj_data ob = obj_data obB
                \<and> (\<not> is_mutable V (obj_data ob) \<longrightarrow> modified_in_place obB = modified_in_place ob)"
    proof (cases "is_mutable V (obj_data ob)")
      case True
      with c obtain c' where "cs ! i = Some c'"
        "objs st' c' = Some ((type_clone V ob)\<lparr>obj_ref_cnt := 1\<rparr>)" by auto
      moreover have "obj_data ob = obj_data ((type_clone V ob)\<lparr>obj_ref_cnt := 1\<rparr>)"
        using contract by simp
      ultimately show ?thesis using True by blast
    next
      case False
      with c obtain ob' where "cs ! i = Some r" "objs st' r = Some ob'"
        "obj_data ob' = obj_data ob" "modified_in_place ob' = modified_in_place ob" by auto
      then show ?thesis by auto
    qed
    then obtain rB obB where b: "cs ! i = Some rB" "objs st' rB = Some obB"
      "obj_data ob = obj_data obB"
      "\<not> is_mutable V (obj_data ob) \<longrightarrow> modified_in_place obB = modified_in_place ob"
      by blast
    from pend iI have "v_floating (variables s ! i) \<or> v_assigned (variables s ! i)
         \<or> (\<not> is_mutable V (obj_data ob) \<and> \<not> modified_in_place ob)"
      using Some ob by auto
    then show ?thesis
    proof (elim disjE)
      assume "v_floating (variables s ! i)" then show ?thesis by simp
    next
      assume "v_assigned (variables s ! i)"
      with Some ob b show ?thesis by blast
    next
      assume u: "\<not> is_mutable V (obj_data ob) \<and> \<not> modified_in_place ob"
      show ?thesis
      proof (cases "v_assigned (variables s ! i)")
        case True
        with Some ob b show ?thesis by blast
      next
        case False
        from u b(4) have "\<not> modified_in_place obB" by simp
        with False Some ob b u show ?thesis by blast
      qed
    qed
  qed
  show "v_floating (variables s ! i)
                 \<or> (v_value (variables s ! i) = None
                     \<and> v_value (variables \<lparr>ref_cnt = 1, variables = cloned_variables (variables s) cs,
                                  weak_refs = [], write_protected = False\<rparr> ! i) = None)
                 \<or> (\<exists>rA rB obA obB.
                       v_value (variables s ! i) = Some rA
                     \<and> v_value (variables \<lparr>ref_cnt = 1, variables = cloned_variables (variables s) cs,
                                  weak_refs = [], write_protected = False\<rparr> ! i) = Some rB
                     \<and> objs st rA = Some obA \<and> objs st' rB = Some obB
                     \<and> ((v_assigned (variables s ! i)
                          \<and> v_assigned (variables \<lparr>ref_cnt = 1, variables = cloned_variables (variables s) cs,
                                  weak_refs = [], write_protected = False\<rparr> ! i)
                          \<and> obj_data obA = obj_data obB)
                        \<or> (\<not> v_assigned (variables s ! i)
                           \<and> \<not> v_assigned (variables \<lparr>ref_cnt = 1, variables = cloned_variables (variables s) cs,
                                  weak_refs = [], write_protected = False\<rparr> ! i)
                           \<and> \<not> modified_in_place obA \<and> \<not> modified_in_place obB)))"
    unfolding nth using g by simp
qed

lemma sync_to_message_loop:
  "scopes st a = Some s \<Longrightarrow> int (length (variables s)) \<le> gint_max \<Longrightarrow>
   filterx_scope_sync_to_message V st a msg = sync_loop V a [0..<length (variables s)] (st, msg)"
  by (simp add: filterx_scope_sync_to_message_def)

lemma clone_flags:
  assumes lcs: "length cs = length (variables s)"
    and own: "owns_refs st s"
    and pw: "\<forall>i<length (variables s).
           (v_value (variables s ! i) = None \<longrightarrow> cs ! i = None)
         \<and> (\<forall>r ob. v_value (variables s ! i) = Some r \<and> objs st r = Some ob \<longrightarrow>
               (if is_mutable V (obj_data ob)
                then \<exists>c. cs ! i = Some c \<and> next_obj st \<le> c
                       \<and> objs st' c = Some ((type_clone V ob)\<lparr>obj_ref_cnt := 1\<rparr>)
                else cs ! i = Some r
                     \<and> (\<exists>ob'. objs st' r = Some ob' \<and> obj_data ob' = obj_data ob
                            \<and> modified_in_place ob' = modified_in_place ob)))"
    and i: "i < length (variables s)"
  shows "v_handle (cloned_variables (variables s) cs ! i) = v_handle (variables s ! i)
       \<and> v_floating (cloned_variables (variables s) cs ! i) = v_floating (variables s ! i)
       \<and> v_assigned (cloned_variables (variables s) cs ! i) = v_assigned (variables s ! i)
       \<and> (v_value (cloned_variables (variables s) cs ! i) = None
            \<longleftrightarrow> v_value (variables s ! i) = None)"
proof -
  have nth: "cloned_variables (variables s) cs ! i = (variables s ! i)\<lparr>v_value := cs ! i\<rparr>"
    using lcs i by simp
  have "cs ! i = None \<longleftrightarrow> v_value (variables s ! i) = None"
  proof (cases "v_value (variables s ! i)")
    case None
    with pw i show ?thesis by simp
  next
    case (Some r)
    from owns_refs_value_live[OF own i Some] obtain ob where "objs st r = Some ob" by blast
    with pw i Some have "if is_mutable V (obj_data ob)
                then \<exists>c. cs ! i = Some c \<and> next_obj st \<le> c
                       \<and> objs st' c = Some ((type_clone V ob)\<lparr>obj_ref_cnt := 1\<rparr>)
                else cs ! i = Some r
                     \<and> (\<exists>ob'. objs st' r = Some ob' \<and> obj_data ob' = obj_data ob
                            \<and> modified_in_place ob' = modified_in_place ob)"
      by blast
    then have "cs ! i \<noteq> None" by (auto split: if_splits)
    with Some show ?thesis by simp
  qed
  then show ?thesis unfolding nth by simp
qed

text \<open>
  C9: the clone that \<^verbatim>\<open>filterx_scope_make_writable\<close> makes of a write protected scope
  has, slot by slot, the handle, the floating flag and the assigned flag of the original,
  and a value exactly where the original has one.  When every variable of the original
  is floating, a whiteout, assigned, or untouched with an immutable value, the sync of
  the clone ends as the sync of the original would have (the same fault or none) and
  leaves the same message: the same unset and set calls with the same bytes and types.
  Slot by slot, whatever the other variables are: for a variable that is floating, a
  whiteout, assigned, or untouched with an immutable value, once the rounds of any other
  slots have run in both scopes (in the sync, the slots before it), the round of the
  slot in the clone does to any message what the round of the slot in the original does:
  the same fault, or the same unset or set call with the same bytes and type.
\<close>

theorem clone_keeps_flags_and_sync:
  assumes "scopes st a = Some s" and "scopes st (next_scope st) = None"
    and "\<forall>r\<ge>next_obj st. objs st r = None"
    and "int (length (variables s)) \<le> gint_max"
    and "owns_refs st s" and "write_protected s"
    and "\<forall>ob. obj_data (type_clone V ob) = obj_data ob"
  shows "\<exists>st' s'. filterx_scope_make_writable V st a = Inr (st', next_scope st)
     \<and> scopes st' (next_scope st) = Some s'
     \<and> length (variables s') = length (variables s)
     \<and> (\<forall>i<length (variables s).
           v_handle (variables s' ! i) = v_handle (variables s ! i)
         \<and> v_floating (variables s' ! i) = v_floating (variables s ! i)
         \<and> v_assigned (variables s' ! i) = v_assigned (variables s ! i)
         \<and> (v_value (variables s' ! i) = None \<longleftrightarrow> v_value (variables s ! i) = None))
     \<and> ((\<forall>i<length (variables s).
            v_floating (variables s ! i) \<or> v_value (variables s ! i) = None
          \<or> v_assigned (variables s ! i)
          \<or> (\<exists>r ob. v_value (variables s ! i) = Some r \<and> objs st r = Some ob
                 \<and> \<not> is_mutable V (obj_data ob) \<and> \<not> modified_in_place ob)) \<longrightarrow>
         (\<forall>msg.
            fst (filterx_scope_sync_to_message V st' (next_scope st) msg)
              = fst (filterx_scope_sync_to_message V st a msg)
          \<and> snd (snd (filterx_scope_sync_to_message V st' (next_scope st) msg))
              = snd (snd (filterx_scope_sync_to_message V st a msg))))
     \<and> (\<forall>i<length (variables s).
           v_floating (variables s ! i) \<or> v_value (variables s ! i) = None
         \<or> v_assigned (variables s ! i)
         \<or> (\<exists>r ob. v_value (variables s ! i) = Some r \<and> objs st r = Some ob
                \<and> \<not> is_mutable V (obj_data ob) \<and> \<not> modified_in_place ob) \<longrightarrow>
           (\<forall>js mA mB stA stB mA' mB' m.
              i \<notin> set js
            \<and> sync_loop V a js (st, mA) = (None, stA, mA')
            \<and> sync_loop V (next_scope st) js (st', mB) = (None, stB, mB') \<longrightarrow>
              map_sum id snd (sync_variable V (next_scope st) i (stB, m))
                = map_sum id snd (sync_variable V a i (stA, m))))"
proof -
  from make_writable_protected[OF assms(1-6), of V] obtain st' cs where
    mw: "filterx_scope_make_writable V st a = Inr (st', next_scope st)"
    and scs: "scopes st' = (scopes st)(next_scope st \<mapsto>
            \<lparr>ref_cnt = 1, variables = cloned_variables (variables s) cs,
             weak_refs = [], write_protected = False\<rparr>,
          a := (if ref_cnt s - 1 = 0 then None else Some (s\<lparr>ref_cnt := ref_cnt s - 1\<rparr>)))"
    and lcs: "length cs = length (variables s)"
    and pw: "\<forall>i<length (variables s).
           (v_value (variables s ! i) = None \<longrightarrow> cs ! i = None)
         \<and> (\<forall>r ob. v_value (variables s ! i) = Some r \<and> objs st r = Some ob \<longrightarrow>
               (if is_mutable V (obj_data ob)
                then \<exists>c. cs ! i = Some c \<and> next_obj st \<le> c
                       \<and> objs st' c = Some ((type_clone V ob)\<lparr>obj_ref_cnt := 1\<rparr>)
                else cs ! i = Some r
                     \<and> (\<exists>ob'. objs st' r = Some ob' \<and> obj_data ob' = obj_data ob
                            \<and> modified_in_place ob' = modified_in_place ob)))"
    by (elim exE conjE) (rule that; assumption)
  define t where "t = \<lparr>ref_cnt = 1, variables = cloned_variables (variables s) cs,
             weak_refs = [], write_protected = False\<rparr>"
  have ne: "a \<noteq> next_scope st" using assms(1,2) by auto
  have st: "scopes st' (next_scope st) = Some t" using scs ne by (simp add: t_def)
  have lt: "length (variables t) = length (variables s)" using lcs by (simp add: t_def)
  have flags: "\<forall>i<length (variables s).
           v_handle (variables t ! i) = v_handle (variables s ! i)
         \<and> v_floating (variables t ! i) = v_floating (variables s ! i)
         \<and> v_assigned (variables t ! i) = v_assigned (variables s ! i)
         \<and> (v_value (variables t ! i) = None \<longleftrightarrow> v_value (variables s ! i) = None)"
    using clone_flags[OF lcs assms(5) pw] by (simp add: t_def)
  have sync: "\<forall>msg.
            fst (filterx_scope_sync_to_message V st' (next_scope st) msg)
              = fst (filterx_scope_sync_to_message V st a msg)
          \<and> snd (snd (filterx_scope_sync_to_message V st' (next_scope st) msg))
              = snd (snd (filterx_scope_sync_to_message V st a msg))"
    if pend: "\<forall>i<length (variables s).
            v_floating (variables s ! i) \<or> v_value (variables s ! i) = None
          \<or> v_assigned (variables s ! i)
          \<or> (\<exists>r ob. v_value (variables s ! i) = Some r \<and> objs st r = Some ob
                 \<and> \<not> is_mutable V (obj_data ob) \<and> \<not> modified_in_place ob)"
  proof
    fix msg
    have rel: "sync_alike (set [0..<length (variables s)]) st a st' (next_scope st)"
      by (rule clone_sync_alike_on[OF assms(1) st[unfolded t_def] lcs assms(5,7) pw _ pend[unfolded all_set_upt]]) simp
    have lA: "filterx_scope_sync_to_message V st a msg
                = sync_loop V a [0..<length (variables s)] (st, msg)"
      by (rule sync_to_message_loop[OF assms(1,4)])
    have lB: "filterx_scope_sync_to_message V st' (next_scope st) msg
                = sync_loop V (next_scope st) [0..<length (variables s)] (st', msg)"
      using sync_to_message_loop[OF st, of V msg] assms(4) lt by simp
    from sync_alike_loop[OF distinct_upt rel, of V msg]
    show "fst (filterx_scope_sync_to_message V st' (next_scope st) msg)
              = fst (filterx_scope_sync_to_message V st a msg)
          \<and> snd (snd (filterx_scope_sync_to_message V st' (next_scope st) msg))
              = snd (snd (filterx_scope_sync_to_message V st a msg))"
      unfolding lA lB by simp
  qed
  have slot: "\<forall>js mA mB stA stB mA' mB' m.
              i \<notin> set js
            \<and> sync_loop V a js (st, mA) = (None, stA, mA')
            \<and> sync_loop V (next_scope st) js (st', mB) = (None, stB, mB') \<longrightarrow>
              map_sum id snd (sync_variable V (next_scope st) i (stB, m))
                = map_sum id snd (sync_variable V a i (stA, m))"
    if i: "i < length (variables s)"
    and pend: "v_floating (variables s ! i) \<or> v_value (variables s ! i) = None
         \<or> v_assigned (variables s ! i)
         \<or> (\<exists>r ob. v_value (variables s ! i) = Some r \<and> objs st r = Some ob
                \<and> \<not> is_mutable V (obj_data ob) \<and> \<not> modified_in_place ob)" for i
  proof (intro allI impI)
    fix js mA mB stA stB mA' mB' m
    assume h: "i \<notin> set js
            \<and> sync_loop V a js (st, mA) = (None, stA, mA')
            \<and> sync_loop V (next_scope st) js (st', mB) = (None, stB, mB')"
    have rel: "sync_alike {i} st a st' (next_scope st)"
      by (rule clone_sync_alike_on[OF assms(1) st[unfolded t_def] lcs assms(5,7) pw])
         (use i pend in simp_all)
    from h have dis: "set js \<inter> {i} = {}" by simp
    from sync_alike_loop_left[OF rel dis h[THEN conjunct2, THEN conjunct1]]
    have "sync_alike {i} stA a st' (next_scope st)" .
    from sync_alike_loop_right[OF this dis h[THEN conjunct2, THEN conjunct2]]
    have "sync_alike {i} stA a stB (next_scope st)" .
    then show "map_sum id snd (sync_variable V (next_scope st) i (stB, m))
                = map_sum id snd (sync_variable V a i (stA, m))"
      by (rule sync_alike_round_same)
  qed
  have perslot: "\<forall>i<length (variables s).
           v_floating (variables s ! i) \<or> v_value (variables s ! i) = None
         \<or> v_assigned (variables s ! i)
         \<or> (\<exists>r ob. v_value (variables s ! i) = Some r \<and> objs st r = Some ob
                \<and> \<not> is_mutable V (obj_data ob) \<and> \<not> modified_in_place ob) \<longrightarrow>
           (\<forall>js mA mB stA stB mA' mB' m.
              i \<notin> set js
            \<and> sync_loop V a js (st, mA) = (None, stA, mA')
            \<and> sync_loop V (next_scope st) js (st', mB) = (None, stB, mB') \<longrightarrow>
              map_sum id snd (sync_variable V (next_scope st) i (stB, m))
                = map_sum id snd (sync_variable V a i (stA, m)))"
  proof (intro allI impI)
    fix i js mA mB stA stB mA' mB' m
    assume i: "i < length (variables s)"
      and pend: "v_floating (variables s ! i) \<or> v_value (variables s ! i) = None
         \<or> v_assigned (variables s ! i)
         \<or> (\<exists>r ob. v_value (variables s ! i) = Some r \<and> objs st r = Some ob
                \<and> \<not> is_mutable V (obj_data ob) \<and> \<not> modified_in_place ob)"
      and h: "i \<notin> set js
            \<and> sync_loop V a js (st, mA) = (None, stA, mA')
            \<and> sync_loop V (next_scope st) js (st', mB) = (None, stB, mB')"
    from slot[OF i pend] h
    show "map_sum id snd (sync_variable V (next_scope st) i (stB, m))
                = map_sum id snd (sync_variable V a i (stA, m))"
      by blast
  qed
  show ?thesis
    apply (rule exI[of _ st'], rule exI[of _ t])
    apply (intro conjI)
         apply (rule mw)
        apply (rule st)
       apply (rule lt)
      apply (rule flags)
     apply (rule impI)
     apply (erule sync)
    apply (rule perslot)
    done
qed

lemma pending_state_scope: "scopes pending_state 0 = Some pending_scope"
  by (simp add: pending_state_def)

lemma pending_scope_owns: "owns_refs pending_state pending_scope"
  by (auto simp: owns_refs_def scope_refs_def value_refs_def pending_state_def pending_scope_def
      split: if_splits)

lemma pending_scope_pending:
  "\<forall>i<length (variables pending_scope).
            v_floating (variables pending_scope ! i) \<or> v_value (variables pending_scope ! i) = None
          \<or> v_assigned (variables pending_scope ! i)
          \<or> (\<exists>r ob. v_value (variables pending_scope ! i) = Some r \<and> objs pending_state r = Some ob
                 \<and> \<not> is_mutable example_layer (obj_data ob) \<and> \<not> modified_in_place ob)"
  by (simp add: pending_scope_def pending_state_def example_layer_def All_less_Suc
       numeral_eq_Suc)

theorem clone_keeps_flags_and_sync_witness:
  "scopes pending_state 0 = Some pending_scope
   \<and> write_protected pending_scope
   \<and> owns_refs pending_state pending_scope
   \<and> (\<exists>st' s'. filterx_scope_make_writable example_layer pending_state 0 = Inr (st', 1)
        \<and> scopes st' 1 = Some s'
        \<and> length (variables s') = 4
        \<and> v_handle (variables s' ! 2) = 9 \<and> v_assigned (variables s' ! 2)
        \<and> v_floating (variables s' ! 1)
        \<and> v_value (variables s' ! 3) = None
        \<and> fst (filterx_scope_sync_to_message example_layer st' 1 example_message) = None
        \<and> msg_ops (snd (snd (filterx_scope_sync_to_message example_layer st' 1 example_message)))
            = [Msg_set 9 ''{}'' 7, Msg_unset 12])
   \<and> write_protected example_scope \<and> owns_refs example_state example_scope
   \<and> filterx_scope_make_writable example_layer example_state 0 = Inr (example_clone_state, 1)
   \<and> (\<exists>stA mA stB mB.
        sync_loop example_layer 0 [0, 1] (example_state, example_message) = (None, stA, mA)
      \<and> sync_loop example_layer 1 [0, 1] (example_clone_state, example_message) = (None, stB, mB)
      \<and> map_sum id snd (sync_variable example_layer 1 2 (stB, empty_message)) = Inr (log_msg_set_value_with_type empty_message 9 ''42'' 4)
      \<and> map_sum id snd (sync_variable example_layer 0 2 (stA, empty_message)) = Inr (log_msg_set_value_with_type empty_message 9 ''42'' 4))
   \<and> (\<exists>stA mA stB mB.
        sync_loop example_layer 0 [0, 1, 2] (example_state, example_message) = (None, stA, mA)
      \<and> sync_loop example_layer 1 [0, 1, 2] (example_clone_state, example_message) = (None, stB, mB)
      \<and> map_sum id snd (sync_variable example_layer 1 3 (stB, empty_message)) = Inr (log_msg_unset_value empty_message 12)
      \<and> map_sum id snd (sync_variable example_layer 0 3 (stA, empty_message)) = Inr (log_msg_unset_value empty_message 12))"
proof -
  have old: "scopes pending_state 0 = Some pending_scope
   \<and> write_protected pending_scope
   \<and> owns_refs pending_state pending_scope
   \<and> (\<exists>st' s'. filterx_scope_make_writable example_layer pending_state 0 = Inr (st', 1)
        \<and> scopes st' 1 = Some s'
        \<and> length (variables s') = 4
        \<and> v_handle (variables s' ! 2) = 9 \<and> v_assigned (variables s' ! 2)
        \<and> v_floating (variables s' ! 1)
        \<and> v_value (variables s' ! 3) = None
        \<and> fst (filterx_scope_sync_to_message example_layer st' 1 example_message) = None
        \<and> msg_ops (snd (snd (filterx_scope_sync_to_message example_layer st' 1 example_message)))
            = [Msg_set 9 ''{}'' 7, Msg_unset 12])"
  proof -
    have fresh: "scopes pending_state (next_scope pending_state) = None"
      by (simp add: pending_state_def)
    have top: "\<forall>r\<ge>next_obj pending_state. objs pending_state r = None"
      by (simp add: pending_state_def)
    have len: "int (length (variables pending_scope)) \<le> gint_max"
      by (simp add: pending_scope_def gint_max_def)
    have wp: "write_protected pending_scope" by (simp add: pending_scope_def)
    have contract: "\<forall>ob. obj_data (type_clone example_layer ob) = obj_data ob"
      by (simp add: example_layer_def)
    have ns: "next_scope pending_state = 1" by (simp add: pending_state_def)
    have n: "[0..<length (variables pending_scope)] = [0, 1, 2, 3]"
      by (simp add: pending_scope_def upt_rec)
    have orig: "filterx_scope_sync_to_message example_layer pending_state 0 example_message
            = sync_loop example_layer 0 [0, 1, 2, 3] (pending_state, example_message)"
      using pending_state_scope len n by (simp add: filterx_scope_sync_to_message_def)
    have o1: "fst (sync_loop example_layer 0 [0, 1, 2, 3] (pending_state, example_message)) = None"
      by (simp add: run_defs pending_state_def pending_scope_def example_layer_def example_message_def)
    have o2: "msg_ops (snd (snd (sync_loop example_layer 0 [0, 1, 2, 3] (pending_state, example_message))))
         = [Msg_set 9 ''{}'' 7, Msg_unset 12]"
      by (simp add: run_defs pending_state_def pending_scope_def example_layer_def example_message_def)
    from clone_keeps_flags_and_sync[OF pending_state_scope fresh top len pending_scope_owns wp contract]
    obtain st' s' where
      mw: "filterx_scope_make_writable example_layer pending_state 0 = Inr (st', 1)"
      and sc: "scopes st' 1 = Some s'"
      and ln: "length (variables s') = length (variables pending_scope)"
      and fl: "\<forall>i<length (variables pending_scope).
             v_handle (variables s' ! i) = v_handle (variables pending_scope ! i)
           \<and> v_floating (variables s' ! i) = v_floating (variables pending_scope ! i)
           \<and> v_assigned (variables s' ! i) = v_assigned (variables pending_scope ! i)
           \<and> (v_value (variables s' ! i) = None \<longleftrightarrow> v_value (variables pending_scope ! i) = None)"
      and sy: "(\<forall>i<length (variables pending_scope).
              v_floating (variables pending_scope ! i) \<or> v_value (variables pending_scope ! i) = None
            \<or> v_assigned (variables pending_scope ! i)
            \<or> (\<exists>r ob. v_value (variables pending_scope ! i) = Some r \<and> objs pending_state r = Some ob
                   \<and> \<not> is_mutable example_layer (obj_data ob) \<and> \<not> modified_in_place ob)) \<longrightarrow>
           (\<forall>msg.
              fst (filterx_scope_sync_to_message example_layer st' 1 msg)
                = fst (filterx_scope_sync_to_message example_layer pending_state 0 msg)
            \<and> snd (snd (filterx_scope_sync_to_message example_layer st' 1 msg))
                = snd (snd (filterx_scope_sync_to_message example_layer pending_state 0 msg)))"
      unfolding ns by (elim exE conjE) (rule that; assumption)
    from sy pending_scope_pending have eq: "fst (filterx_scope_sync_to_message example_layer st' 1 example_message)
                = fst (filterx_scope_sync_to_message example_layer pending_state 0 example_message)
            \<and> snd (snd (filterx_scope_sync_to_message example_layer st' 1 example_message))
                = snd (snd (filterx_scope_sync_to_message example_layer pending_state 0 example_message))"
      by blast
    have l4: "length (variables s') = 4" using ln by (simp add: pending_scope_def)
    have f2: "v_handle (variables s' ! 2) = 9 \<and> v_assigned (variables s' ! 2)"
      using fl[THEN spec, of 2] by (simp add: pending_scope_def)
    have f1: "v_floating (variables s' ! 1)"
      using fl[THEN spec, of 1] by (simp add: pending_scope_def)
    have f3: "v_value (variables s' ! 3) = None"
      using fl[THEN spec, of 3] by (simp add: pending_scope_def)
    have s1: "fst (filterx_scope_sync_to_message example_layer st' 1 example_message) = None"
      using eq orig o1 by simp
    have s2: "msg_ops (snd (snd (filterx_scope_sync_to_message example_layer st' 1 example_message)))
              = [Msg_set 9 ''{}'' 7, Msg_unset 12]"
      using eq orig o2 by simp
    show ?thesis
      apply (intro conjI)
         apply (rule pending_state_scope)
        apply (rule wp)
       apply (rule pending_scope_owns)
      apply (rule exI[of _ st'], rule exI[of _ s'])
      apply (intro conjI)
             apply (rule mw)
            apply (rule sc)
           apply (rule l4)
          apply (rule f2[THEN conjunct1])
         apply (rule f2[THEN conjunct2])
        apply (rule f1)
       apply (rule f3)
      apply (rule s1)
      apply (rule s2)
      done
  qed
  have fresh: "scopes example_state (next_scope example_state) = None"
    by (simp add: example_state_def)
  have top: "\<forall>r\<ge>next_obj example_state. objs example_state r = None"
    by (simp add: example_state_def)
  have len: "int (length (variables example_scope)) \<le> gint_max"
    by (simp add: example_scope_def gint_max_def)
  have wp: "write_protected example_scope" by (simp add: example_scope_def)
  have own: "owns_refs example_state example_scope"
    by (auto simp: owns_refs_def scope_refs_def value_refs_def example_state_def example_scope_def
        split: if_splits)
  have contract: "\<forall>ob. obj_data (type_clone example_layer ob) = obj_data ob"
    by (simp add: example_layer_def)
  have ns: "next_scope example_state = 1" by (simp add: example_state_def)
  have run: "filterx_scope_make_writable example_layer example_state 0 = Inr (example_clone_state, 1)"
    by (simp add: clone_run_defs example_state_def example_scope_def example_layer_def upt_rec
          example_clone_state_def fun_eq_iff)
  from clone_keeps_flags_and_sync[OF example_state_scope fresh top len own wp contract]
  obtain st' where mw: "filterx_scope_make_writable example_layer example_state 0 = Inr (st', 1)"
    and ps': "\<forall>i<length (variables example_scope).
           v_floating (variables example_scope ! i) \<or> v_value (variables example_scope ! i) = None
         \<or> v_assigned (variables example_scope ! i)
         \<or> (\<exists>r ob. v_value (variables example_scope ! i) = Some r \<and> objs example_state r = Some ob
                \<and> \<not> is_mutable example_layer (obj_data ob) \<and> \<not> modified_in_place ob) \<longrightarrow>
           (\<forall>js mA mB stA stB mA' mB' m.
              i \<notin> set js
            \<and> sync_loop example_layer 0 js (example_state, mA) = (None, stA, mA')
            \<and> sync_loop example_layer 1 js (st', mB) = (None, stB, mB') \<longrightarrow>
              map_sum id snd (sync_variable example_layer 1 i (stB, m))
                = map_sum id snd (sync_variable example_layer 0 i (stA, m)))"
    unfolding ns by (elim exE conjE) (rule that; assumption)
  from mw run have "st' = example_clone_state" by simp
  note ps = ps'[unfolded this]
  have s2: "(\<exists>stA mA stB mB.
        sync_loop example_layer 0 [0, 1] (example_state, example_message) = (None, stA, mA)
      \<and> sync_loop example_layer 1 [0, 1] (example_clone_state, example_message) = (None, stB, mB)
      \<and> map_sum id snd (sync_variable example_layer 1 2 (stB, empty_message)) = Inr (log_msg_set_value_with_type empty_message 9 ''42'' 4)
      \<and> map_sum id snd (sync_variable example_layer 0 2 (stA, empty_message)) = Inr (log_msg_set_value_with_type empty_message 9 ''42'' 4))"
  proof -
    define rA where "rA = sync_loop example_layer 0 [0, 1] (example_state, example_message)"
    define rB where "rB = sync_loop example_layer 1 [0, 1] (example_clone_state, example_message)"
    have "fst rA = None" by (simp add: rA_def run_defs example_defs)
    then have eA: "sync_loop example_layer 0 [0, 1] (example_state, example_message)
                     = (None, fst (snd rA), snd (snd rA))"
      by (simp add: rA_def prod_eq_iff)
    have "fst rB = None" by (simp add: rB_def run_defs example_defs example_clone_state_def)
    then have eB: "sync_loop example_layer 1 [0, 1] (example_clone_state, example_message)
                     = (None, fst (snd rB), snd (snd rB))"
      by (simp add: rB_def prod_eq_iff)
    have ni: "(2::nat) \<notin> set [0, 1]" by simp
    have i: "2 < length (variables example_scope)" by (simp add: example_scope_def)
    have c: "v_floating (variables example_scope ! 2) \<or> v_value (variables example_scope ! 2) = None
         \<or> v_assigned (variables example_scope ! 2)
         \<or> (\<exists>r ob. v_value (variables example_scope ! 2) = Some r \<and> objs example_state r = Some ob
                \<and> \<not> is_mutable example_layer (obj_data ob) \<and> \<not> modified_in_place ob)"
      by (simp add: example_scope_def)
    from ps[THEN spec, THEN mp, OF i, THEN mp, OF c, THEN spec, THEN spec, THEN spec, THEN spec,
         THEN spec, THEN spec, THEN spec, THEN spec, THEN mp, OF conjI[OF ni conjI[OF eA eB]],
       of empty_message]
    have same: "map_sum id snd (sync_variable example_layer 1 2 (fst (snd rB), empty_message))
                = map_sum id snd (sync_variable example_layer 0 2 (fst (snd rA), empty_message))" .
    have vA: "map_sum id snd (sync_variable example_layer 0 2 (fst (snd rA), empty_message))
                = Inr (log_msg_set_value_with_type empty_message 9 ''42'' 4)"
      by (simp add: rA_def run_defs example_defs empty_message_def)
    have vB: "map_sum id snd (sync_variable example_layer 1 2 (fst (snd rB), empty_message))
                = Inr (log_msg_set_value_with_type empty_message 9 ''42'' 4)"
      using same vA by simp
    show ?thesis
      apply (rule exI[of _ "fst (snd rA)"], rule exI[of _ "snd (snd rA)"])
      apply (rule exI[of _ "fst (snd rB)"], rule exI[of _ "snd (snd rB)"])
      apply (intro conjI)
         apply (rule eA)
        apply (rule eB)
       apply (rule vB)
      apply (rule vA)
      done
  qed

  have s3: "(\<exists>stA mA stB mB.
        sync_loop example_layer 0 [0, 1, 2] (example_state, example_message) = (None, stA, mA)
      \<and> sync_loop example_layer 1 [0, 1, 2] (example_clone_state, example_message) = (None, stB, mB)
      \<and> map_sum id snd (sync_variable example_layer 1 3 (stB, empty_message)) = Inr (log_msg_unset_value empty_message 12)
      \<and> map_sum id snd (sync_variable example_layer 0 3 (stA, empty_message)) = Inr (log_msg_unset_value empty_message 12))"
  proof -
    define rA where "rA = sync_loop example_layer 0 [0, 1, 2] (example_state, example_message)"
    define rB where "rB = sync_loop example_layer 1 [0, 1, 2] (example_clone_state, example_message)"
    have "fst rA = None" by (simp add: rA_def run_defs example_defs)
    then have eA: "sync_loop example_layer 0 [0, 1, 2] (example_state, example_message)
                     = (None, fst (snd rA), snd (snd rA))"
      by (simp add: rA_def prod_eq_iff)
    have "fst rB = None" by (simp add: rB_def run_defs example_defs example_clone_state_def)
    then have eB: "sync_loop example_layer 1 [0, 1, 2] (example_clone_state, example_message)
                     = (None, fst (snd rB), snd (snd rB))"
      by (simp add: rB_def prod_eq_iff)
    have ni: "(3::nat) \<notin> set [0, 1, 2]" by simp
    have i: "3 < length (variables example_scope)" by (simp add: example_scope_def)
    have c: "v_floating (variables example_scope ! 3) \<or> v_value (variables example_scope ! 3) = None
         \<or> v_assigned (variables example_scope ! 3)
         \<or> (\<exists>r ob. v_value (variables example_scope ! 3) = Some r \<and> objs example_state r = Some ob
                \<and> \<not> is_mutable example_layer (obj_data ob) \<and> \<not> modified_in_place ob)"
      by (simp add: example_scope_def)
    from ps[THEN spec, THEN mp, OF i, THEN mp, OF c, THEN spec, THEN spec, THEN spec, THEN spec,
         THEN spec, THEN spec, THEN spec, THEN spec, THEN mp, OF conjI[OF ni conjI[OF eA eB]],
       of empty_message]
    have same: "map_sum id snd (sync_variable example_layer 1 3 (fst (snd rB), empty_message))
                = map_sum id snd (sync_variable example_layer 0 3 (fst (snd rA), empty_message))" .
    have vA: "map_sum id snd (sync_variable example_layer 0 3 (fst (snd rA), empty_message))
                = Inr (log_msg_unset_value empty_message 12)"
      by (simp add: rA_def run_defs example_defs empty_message_def)
    have vB: "map_sum id snd (sync_variable example_layer 1 3 (fst (snd rB), empty_message))
                = Inr (log_msg_unset_value empty_message 12)"
      using same vA by simp
    show ?thesis
      apply (rule exI[of _ "fst (snd rA)"], rule exI[of _ "snd (snd rA)"])
      apply (rule exI[of _ "fst (snd rB)"], rule exI[of _ "snd (snd rB)"])
      apply (intro conjI)
         apply (rule eA)
        apply (rule eB)
       apply (rule vB)
      apply (rule vA)
      done
  qed

  show ?thesis
    apply (rule conjI[OF old[THEN conjunct1]])
    apply (rule conjI[OF old[THEN conjunct2, THEN conjunct1]])
    apply (rule conjI[OF old[THEN conjunct2, THEN conjunct2, THEN conjunct1]])
    apply (rule conjI[OF old[THEN conjunct2, THEN conjunct2, THEN conjunct2]])
    apply (rule conjI[OF wp])
    apply (rule conjI[OF own])
    apply (rule conjI[OF run])
    apply (rule conjI[OF s2])
    apply (rule s3)
    done
qed

subsection \<open>Two scopes kept apart\<close>










subsection \<open>Counting references\<close>







subsection \<open>Acquire and release under the count\<close>






subsection \<open>Each mutation keeps the scopes apart\<close>

lemma scope_refs_write_protected [simp]:
  "scope_refs (s\<lparr>write_protected := b\<rparr>) r = scope_refs s r"
  "value_refs (s\<lparr>write_protected := b\<rparr>) r = value_refs s r"
  by (simp_all add: scope_refs_def value_refs_def)

lemma scope_refs_weak_ref [simp]:
  "scope_refs (s\<lparr>weak_refs := weak_refs s @ [n]\<rparr>) r = scope_refs s r + (if n = r then 1 else 0)"
  "value_refs (s\<lparr>weak_refs := ws\<rparr>) r = value_refs s r"
  by (simp_all add: scope_refs_def value_refs_def)

lemma scope_refs_variables:
  "scope_refs (s\<lparr>variables := vs\<rparr>) r
     = value_refs (s\<lparr>variables := vs\<rparr>) r + count_list (weak_refs s) r"
  by (simp add: scope_refs_def)

lemma isolated_unchanged:
  "isolated V st x y \<Longrightarrow> isolated V st x y \<and> scope_view st y = scope_view st y"
  by simp

















subsection \<open>The clone and the original are apart\<close>








end
